theory Spec2Isabelle
  imports Complex_Main "HOL-Library.Sublist"
begin

section \<open>JavaScript values used by the controllers\<close>

text \<open>
  Strings are lists of 8-bit characters (the ASCII range of JavaScript's UTF-16 code
  units). \<open>trim\<close> strips the ASCII white space that \<^verbatim>\<open>String.prototype.trim\<close> strips,
  \<open>toLowerCase\<close> folds \<open>A\<close>..\<open>Z\<close>, \<open>str_includes\<close> (the method \<^verbatim>\<open>includes\<close>) is the substring test.
\<close>

definition is_space :: "char \<Rightarrow> bool" where
  "is_space c = (c \<in> set [CHR 0x09, CHR 0x0A, CHR 0x0B, CHR 0x0C, CHR 0x0D, CHR '' ''])"

definition trim :: "string \<Rightarrow> string" where
  "trim s = rev (dropWhile is_space (rev (dropWhile is_space s)))"

definition lower_char :: "char \<Rightarrow> char" where
  "lower_char c =
     (let n = (of_char c :: nat) in if 65 \<le> n \<and> n \<le> 90 then char_of (n + 32) else c)"

definition toLowerCase :: "string \<Rightarrow> string" where
  "toLowerCase s = map lower_char s"

fun str_includes :: "string \<Rightarrow> string \<Rightarrow> bool" where
  "str_includes [] sub = (sub = [])"
| "str_includes (c # cs) sub = (prefix sub (c # cs) \<or> str_includes cs sub)"

text \<open>
  \<^verbatim>\<open>xs[i]\<close> reads \<^verbatim>\<open>undefined\<close> out of range (\<open>None\<close> here); \<^verbatim>\<open>xs[i] = v\<close> on a
  copy extends the array when \<open>i\<close> is beyond its end. The holes it leaves read as
  \<^verbatim>\<open>undefined\<close>; they are stored as the empty string, which every reader of a hole in
  the controllers treats alike (a falsy value).
\<close>

definition js_get :: "'a list \<Rightarrow> nat \<Rightarrow> 'a option" where
  "js_get xs i = (if i < length xs then Some (xs ! i) else None)"

definition js_set :: "string list \<Rightarrow> nat \<Rightarrow> string \<Rightarrow> string list" where
  "js_set xs i v =
     (if i < length xs then xs[i := v] else xs @ replicate (i - length xs) [] @ [v])"

text \<open>\<^verbatim>\<open>a || b\<close> on an array element: the element when it is a non-empty string.\<close>

definition or_else :: "string option \<Rightarrow> string \<Rightarrow> string" where
  "or_else a b = (case a of None \<Rightarrow> b | Some s \<Rightarrow> if s = [] then b else s)"

text \<open>
  Numbers of the results views. A quotient is \<open>None\<close> when JavaScript's is not a finite
  number (\<^verbatim>\<open>NaN\<close> or an infinity, for a zero divisor); otherwise it is the exact
  rational, so the rounding of the floating-point quotient itself is not modelled.
  \<^verbatim>\<open>Math.round\<close> rounds half up.
\<close>

definition js_divide :: "rat \<Rightarrow> rat \<Rightarrow> rat option" where
  "js_divide a b = (if b = 0 then None else Some (a / b))"

definition Math_round :: "rat \<Rightarrow> int" where
  "Math_round x = \<lfloor>x + 1 / 2\<rfloor>"

section \<open>services/geminiService.ts\<close>

record MCQ =
  question :: string
  options :: "string list"
  correctAnswer :: string

datatype TechnicalSubject = DBMS | CN | OOPS | DSA | OS | Cpp

fun subject_text :: "TechnicalSubject \<Rightarrow> string" where
  "subject_text DBMS = ''DBMS''"
| "subject_text CN = ''CN''"
| "subject_text OOPS = ''OOPS''"
| "subject_text DSA = ''DSA''"
| "subject_text OS = ''OS''"
| "subject_text Cpp = ''C++''"

definition sampleResumeQuestions :: "string list" where
  "sampleResumeQuestions =
    [''Can you walk me through the most challenging project on your resume?'',
     ''Explain the architecture of the project where you used Node.js and React.'',
     ''What was your specific role and contribution to the 'AI Chatbot' project?'',
     ''How did you handle data persistence in the 'E-commerce Platform' project?'',
     ''Tell me about a time you had to learn a new technology for a project listed here. What was it and what was the outcome?'',
     ''Describe a difficult bug you encountered in one of these projects and how you resolved it.'',
     ''Based on your resume, what do you consider your strongest technical skill and why?'',
     ''How did you ensure the scalability of the 'Social Media API' project?'',
     ''What is something you would do differently if you were to start your 'Data Visualization Dashboard' project today?'',
     ''Explain the purpose and outcome of the certification you received in Cloud Computing.'']"

definition sampleMcqs :: "MCQ list" where
  "sampleMcqs =
    [\<lparr>question = ''In object-oriented programming, what is encapsulation?'',
      options = [''The process of hiding the implementation details of an object'',
                 ''The ability of an object to take on many forms'',
                 ''The process of creating a new class from an existing class'',
                 ''A type of data structure''],
      correctAnswer = ''The process of hiding the implementation details of an object''\<rparr>,
     \<lparr>question = ''What does the acronym 'SQL' stand for?'',
      options = [''Structured Query Language'', ''Simple Query Language'',
                 ''Standard Query Log'', ''System Qualification Layer''],
      correctAnswer = ''Structured Query Language''\<rparr>,
     \<lparr>question = ''Which data structure operates on a Last-In, First-Out (LIFO) basis?'',
      options = [''Queue'', ''Stack'', ''Linked List'', ''Tree''],
      correctAnswer = ''Stack''\<rparr>,
     \<lparr>question = ''What is the primary purpose of a DNS server?'',
      options = [''To store website files'', ''To translate domain names to IP addresses'',
                 ''To encrypt network traffic'', ''To manage database connections''],
      correctAnswer = ''To translate domain names to IP addresses''\<rparr>,
     \<lparr>question = ''In CSS, what property is used to change the text color of an element?'',
      options = [''font-color'', ''text-color'', ''color'', ''font-style''],
      correctAnswer = ''color''\<rparr>,
     \<lparr>question = ''What is the time complexity of a binary search algorithm?'',
      options = [''O(n)'', ''O(log n)'', ''O(n^2)'', ''O(1)''],
      correctAnswer = ''O(log n)''\<rparr>,
     \<lparr>question = ''Which of the following is NOT a primitive data type in JavaScript?'',
      options = [''String'', ''Number'', ''Array'', ''Boolean''],
      correctAnswer = ''Array''\<rparr>,
     \<lparr>question = ''What does 'OS' stand for in the context of computing?'',
      options = [''Operating System'', ''Open Source'', ''Order of Significance'',
                 ''Optical Sensor''],
      correctAnswer = ''Operating System''\<rparr>,
     \<lparr>question = ''What is the role of an operating system's kernel?'',
      options = [''To provide a user interface'',
                 ''To manage hardware resources and provide core system services'',
                 ''To run application software'', ''To compile source code''],
      correctAnswer = ''To manage hardware resources and provide core system services''\<rparr>,
     \<lparr>question = ''In C++, what is a constructor?'',
      options = [''A function that is automatically called when an object is destroyed'',
                 ''A special method for creating and initializing an object'',
                 ''A data type for storing integers'', ''A loop structure''],
      correctAnswer = ''A special method for creating and initializing an object''\<rparr>]"

text \<open>
  \<open>getAi\<close> yields a client exactly when the API key is configured. The parameter
  \<open>apiKey\<close> of the gateway functions is \<^verbatim>\<open>isApiKeyConfigured()\<close>.
\<close>

definition getAi :: "bool \<Rightarrow> unit option" where
  "getAi apiKey = (if \<not> apiKey then None else Some ())"

text \<open>
  What the remote call of \<open>generateQuestionsFromResume\<close> comes to inside its
  \<^verbatim>\<open>try\<close> block: an exception with its message (the call rejects, or the text is
  not JSON), a JSON array (its elements taken to be strings, as the declared result
  type has them), or another JSON value.
\<close>

datatype questions_reply = Threw string | Parsed_array "string list" | Parsed_other

record FileData =
  base64 :: string
  mimeType :: string

definition generateQuestionsFromResume ::
  "bool \<Rightarrow> questions_reply \<Rightarrow> FileData \<Rightarrow> string list" where
  "generateQuestionsFromResume apiKey reply fileData =
     (if \<not> apiKey then sampleResumeQuestions
      else case getAi apiKey of
        None \<Rightarrow> [''Could not connect to the AI service.'']
      | Some ai \<Rightarrow>
          (case reply of
             Parsed_array qs \<Rightarrow> qs
           | Parsed_other \<Rightarrow> []
           | Threw errorMessage \<Rightarrow>
               if str_includes errorMessage ''400''
               then [''Could not process the uploaded file. It might be corrupted or in an unsupported format. Please try a different file (PDF, DOCX, TXT).'']
               else [''Could not generate questions due to an API error. Please try again later.'']))"

text \<open>
  The scoring call. Its reply inside the \<^verbatim>\<open>try\<close> block is an exception, or a parsed
  object. The code inspects its \<^verbatim>\<open>feedback\<close> (present here when it is a string) and
  its \<^verbatim>\<open>score\<close> (present when it is a number; scores are integers in this model) and
  returns the object itself, with every key the reply carried. Of the other keys the
  page reads \<^verbatim>\<open>question\<close> and \<^verbatim>\<open>answer\<close>, when the spread of the evaluation puts
  them over its own; they are kept when the reply carries them (as strings, the type
  the results are declared with). The objects the function builds itself have the two
  declared keys only. In demo mode the score is drawn with \<^verbatim>\<open>Math.random()\<close>, the
  parameter \<open>rnd\<close>.
\<close>

datatype eval_reply =
    Eval_threw
  | Eval_parsed "string option" "int option" "string option" "string option"

record Evaluation =
  feedback :: string
  score :: int
  question_key :: "string option"
  answer_key :: "string option"

definition evaluation_fallback :: Evaluation where
  "evaluation_fallback =
     \<lparr>feedback = ''An error occurred while evaluating the answer. Please try again.'',
      score = 0, question_key = None, answer_key = None\<rparr>"

definition evaluateAnswer ::
  "bool \<Rightarrow> rat \<Rightarrow> eval_reply \<Rightarrow> string \<Rightarrow> string \<Rightarrow> Evaluation" where
  "evaluateAnswer apiKey rnd reply q a =
     (if \<not> apiKey then
        \<lparr>feedback = ''This is a solid answer. You demonstrated a good understanding of the topic. To improve, you could provide a more specific, real-world example from your experience.'',
         score = \<lfloor>rnd * 3\<rfloor> + 3, question_key = None, answer_key = None\<rparr>
      else case getAi apiKey of
        None \<Rightarrow> \<lparr>feedback = ''Could not connect to the AI service.'', score = 0,
                  question_key = None, answer_key = None\<rparr>
      | Some ai \<Rightarrow>
          (case reply of
             Eval_parsed (Some f) (Some s) qk ak \<Rightarrow>
               \<lparr>feedback = f, score = s, question_key = qk, answer_key = ak\<rparr>
           | _ \<Rightarrow> evaluation_fallback))"

text \<open>
  The quiz generator at the declared type of its result, \<^verbatim>\<open>MCQ[]\<close>, as the quiz
  page uses it. A parsed array is checked item by item: \<^verbatim>\<open>'question' in item\<close> throws
  on an item that is not an object, and is false when a key is missing; an item with
  the three keys is taken to hold values of the declared types. The generator on the
  parsed value itself, where it need not, follows below.
\<close>

datatype mcq_item = Item_ok MCQ | Item_missing_key | Item_not_object

datatype mcq_reply = Mcq_threw | Mcq_array "mcq_item list" | Mcq_other

fun item_ok :: "mcq_item \<Rightarrow> bool" where
  "item_ok (Item_ok m) = True"
| "item_ok _ = False"

fun items_mcqs :: "mcq_item list \<Rightarrow> MCQ list" where
  "items_mcqs [] = []"
| "items_mcqs (Item_ok m # rest) = m # items_mcqs rest"
| "items_mcqs (_ # rest) = items_mcqs rest"

definition mcq_error_item :: "TechnicalSubject \<Rightarrow> MCQ" where
  "mcq_error_item subject =
     \<lparr>question = ''An error occurred while fetching questions for '' @ subject_text subject
                   @ ''. Please try again.'',
      options = [], correctAnswer = []\<rparr>"

definition generateMcqTest :: "bool \<Rightarrow> mcq_reply \<Rightarrow> TechnicalSubject \<Rightarrow> MCQ list" where
  "generateMcqTest apiKey reply subject =
     (if \<not> apiKey then sampleMcqs
      else case getAi apiKey of
        None \<Rightarrow> [\<lparr>question = ''Could not connect to the AI service.'',
                   options = [], correctAnswer = []\<rparr>]
      | Some ai \<Rightarrow>
          (case reply of
             Mcq_array items \<Rightarrow>
               if list_all item_ok items then items_mcqs items
               else [mcq_error_item subject]
           | _ \<Rightarrow> [mcq_error_item subject]))"

text \<open>
  The quiz generator on the value \<^verbatim>\<open>JSON.parse\<close> returns. \<open>generateMcqTest\<close> above takes
  the items that pass the check at their declared type; in the source nothing makes
  them so, the check looks at the keys only. Numbers are integers here.
  \<^verbatim>\<open>'question' in item\<close> throws a \<^verbatim>\<open>TypeError\<close> when the item is not an object; an
  array is an object without the three keys. \<^verbatim>\<open>every\<close> stops at the first item whose
  test is false, or throws with it. The
  \<^verbatim>\<open>try\<close> block either returns the parsed array itself or throws: the exception of
  the remote call, of reading the reply's text or of the parser, the \<^verbatim>\<open>TypeError\<close>, or
  the \<^verbatim>\<open>Error\<close> of its last line. The \<^verbatim>\<open>catch\<close> block turns whatever was thrown into
  the list of the one error item.
\<close>

datatype json =
    J_null
  | J_bool bool
  | J_number int
  | J_string string
  | J_array "json list"
  | J_object "(string \<times> json) list"

datatype json_reply = Json_threw | Json_parsed json

datatype thrown = Call_failed | TypeError | Format_error

fun has_mcq_keys :: "json \<Rightarrow> thrown + bool" where
  "has_mcq_keys (J_object members) =
     Inr (''question'' \<in> set (map fst members) \<and> ''options'' \<in> set (map fst members)
          \<and> ''correctAnswer'' \<in> set (map fst members))"
| "has_mcq_keys (J_array xs) = Inr False"
| "has_mcq_keys _ = Inl TypeError"

fun every_item :: "json list \<Rightarrow> thrown + bool" where
  "every_item [] = Inr True"
| "every_item (item # rest) =
     (case has_mcq_keys item of
        Inl e \<Rightarrow> Inl e
      | Inr False \<Rightarrow> Inr False
      | Inr True \<Rightarrow> every_item rest)"

definition mcq_json :: "MCQ \<Rightarrow> json" where
  "mcq_json m =
     J_object [(''question'', J_string (question m)),
               (''options'', J_array (map J_string (options m))),
               (''correctAnswer'', J_string (correctAnswer m))]"

definition generateMcqTest_try :: "json_reply \<Rightarrow> thrown + json list" where
  "generateMcqTest_try reply =
     (case reply of
        Json_threw \<Rightarrow> Inl Call_failed
      | Json_parsed (J_array mcqs) \<Rightarrow>
          (case every_item mcqs of
             Inl e \<Rightarrow> Inl e
           | Inr True \<Rightarrow> Inr mcqs
           | Inr False \<Rightarrow> Inl Format_error)
      | Json_parsed _ \<Rightarrow> Inl Format_error)"

definition generateMcqTest_json :: "bool \<Rightarrow> json_reply \<Rightarrow> TechnicalSubject \<Rightarrow> json list" where
  "generateMcqTest_json apiKey reply subject =
     (if \<not> apiKey then map mcq_json sampleMcqs
      else case getAi apiKey of
        None \<Rightarrow> [mcq_json \<lparr>question = ''Could not connect to the AI service.'',
                            options = [], correctAnswer = []\<rparr>]
      | Some ai \<Rightarrow>
          (case generateMcqTest_try reply of
             Inr mcqs \<Rightarrow> mcqs
           | Inl error \<Rightarrow> [mcq_json (mcq_error_item subject)]))"

text \<open>
  The summary call of the spoken mode. The parsed reply is returned unchecked, at the
  declared type.
\<close>

record PerformanceSummary =
  strengths :: string
  areasForImprovement :: string

datatype summary_reply = Summary_threw | Summary_parsed PerformanceSummary

definition summarizeInterviewPerformance :: "bool \<Rightarrow> summary_reply \<Rightarrow> PerformanceSummary" where
  "summarizeInterviewPerformance apiKey reply =
     (if \<not> apiKey then
        \<lparr>strengths = ''You communicated your ideas clearly and showed a good grasp of the technical fundamentals discussed. Your examples were relevant and demonstrated your experience.'',
         areasForImprovement = ''To take your answers to the next level, focus on articulating the impact and business value of your work. Quantifying your achievements (e.g., 'improved performance by 20%') can be very powerful.''\<rparr>
      else case getAi apiKey of
        None \<Rightarrow> \<lparr>strengths = ''Could not connect to AI service.'', areasForImprovement = []\<rparr>
      | Some ai \<Rightarrow>
          (case reply of
             Summary_parsed summary \<Rightarrow> summary
           | Summary_threw \<Rightarrow>
               \<lparr>strengths = ''An error occurred while generating the performance summary.'',
                areasForImprovement = ''Please review the individual feedback for each question.''\<rparr>))"

section \<open>components/McqTestPage.tsx\<close>

text \<open>
  The state of the quiz page: \<open>mcqQuestions\<close>, \<open>mcqIndex\<close>, \<open>mcqScore\<close> and
  \<open>mcqSummary\<close> are the source's \<^verbatim>\<open>questions\<close>, \<^verbatim>\<open>currentQuestionIndex\<close>, \<^verbatim>\<open>score\<close>
  and \<^verbatim>\<open>performanceSummary\<close>. Every handler of this page runs in a click, and the
  page is rendered again before the next click is dispatched, so a handler always
  reads the state its predecessor left.
\<close>

datatype McqState = Select | Loading | McqInProgress | McqSummarizing | McqResults

record mcq_page =
  selectedSubject :: "TechnicalSubject option"
  mcqQuestions :: "MCQ list"
  mcqIndex :: nat
  userAnswers :: "string list"
  mcqState :: McqState
  mcqScore :: int
  mcqSummary :: "PerformanceSummary option"

definition mcq_initial :: mcq_page where
  "mcq_initial =
     \<lparr>selectedSubject = None, mcqQuestions = [], mcqIndex = 0, userAnswers = [],
      mcqState = Select, mcqScore = 0, mcqSummary = None\<rparr>"

definition handleSelectSubject :: "bool \<Rightarrow> mcq_reply \<Rightarrow> TechnicalSubject \<Rightarrow> mcq_page \<Rightarrow> mcq_page" where
  "handleSelectSubject apiKey reply subject s =
     (let s1 = s\<lparr>selectedSubject := Some subject, mcqState := Loading\<rparr>;
          fetchedQuestions = generateMcqTest apiKey reply subject
      in s1\<lparr>mcqQuestions := fetchedQuestions,
            userAnswers := replicate (length fetchedQuestions) [],
            mcqState := McqInProgress\<rparr>)"

definition handleSelectAnswer :: "string \<Rightarrow> mcq_page \<Rightarrow> mcq_page" where
  "handleSelectAnswer option s =
     s\<lparr>userAnswers := js_set (userAnswers s) (mcqIndex s) option\<rparr>"

text \<open>The \<^verbatim>\<open>forEach\<close> loop of \<open>handleNextQuestion\<close>, with its index and its counter.\<close>

fun count_correct :: "MCQ list \<Rightarrow> string list \<Rightarrow> nat \<Rightarrow> int \<Rightarrow> int" where
  "count_correct [] answers index correctAnswers = correctAnswers"
| "count_correct (q # rest) answers index correctAnswers =
     count_correct rest answers (Suc index)
       (if Some (correctAnswer q) = js_get answers index then correctAnswers + 1
        else correctAnswers)"

definition handleNextQuestion :: "mcq_page \<Rightarrow> mcq_page" where
  "handleNextQuestion s =
     (if int (mcqIndex s) < int (length (mcqQuestions s)) - 1
      then s\<lparr>mcqIndex := mcqIndex s + 1\<rparr>
      else s\<lparr>mcqScore := count_correct (mcqQuestions s) (userAnswers s) 0 0,
             mcqState := McqSummarizing\<rparr>)"

text \<open>
  The effect that follows \<^verbatim>\<open>summarizing\<close>; \<open>summary\<close> is what
  \<^verbatim>\<open>summarizeMcqPerformance\<close> resolves to.
\<close>

definition getSummary :: "PerformanceSummary \<Rightarrow> mcq_page \<Rightarrow> mcq_page" where
  "getSummary summary s =
     (if mcqState s = McqSummarizing \<and> selectedSubject s \<noteq> None
      then s\<lparr>mcqSummary := Some summary, mcqState := McqResults\<rparr> else s)"

text \<open>
  The controls of the rendered page. The subject buttons exist in the \<^verbatim>\<open>select\<close> view.
  The in-progress view renders one button per option of the current question and the
  next/submit button, which is disabled while \<^verbatim>\<open>!userAnswers[currentQuestionIndex]\<close>;
  with no current question the view throws while rendering and offers no control.
\<close>

definition next_disabled :: "mcq_page \<Rightarrow> bool" where
  "next_disabled s =
     (case js_get (userAnswers s) (mcqIndex s) of None \<Rightarrow> True | Some a \<Rightarrow> a = [])"

datatype mcq_event =
    Click_subject TechnicalSubject mcq_reply
  | Click_option nat
  | Click_next
  | Summary_resolves PerformanceSummary

fun mcq_step :: "bool \<Rightarrow> mcq_event \<Rightarrow> mcq_page \<Rightarrow> mcq_page" where
  "mcq_step apiKey (Click_subject subject reply) s =
     (if mcqState s = Select then handleSelectSubject apiKey reply subject s else s)"
| "mcq_step apiKey (Click_option k) s =
     (if mcqState s = McqInProgress \<and> mcqIndex s < length (mcqQuestions s)
         \<and> k < length (options (mcqQuestions s ! mcqIndex s))
      then handleSelectAnswer (options (mcqQuestions s ! mcqIndex s) ! k) s else s)"
| "mcq_step apiKey Click_next s =
     (if mcqState s = McqInProgress \<and> mcqIndex s < length (mcqQuestions s)
         \<and> \<not> next_disabled s
      then handleNextQuestion s else s)"
| "mcq_step apiKey (Summary_resolves summary) s = getSummary summary s"

definition mcq_run :: "bool \<Rightarrow> mcq_event list \<Rightarrow> mcq_page \<Rightarrow> mcq_page" where
  "mcq_run apiKey es s = foldl (\<lambda>s e. mcq_step apiKey e s) s es"

text \<open>The percentage of the quiz \<open>ResultsView\<close>.\<close>

definition mcq_percentage :: "int \<Rightarrow> MCQ list \<Rightarrow> int option" where
  "mcq_percentage sc qs =
     (if length qs > 0
      then map_option (\<lambda>x. Math_round (x * 100)) (js_divide (of_int sc) (of_nat (length qs)))
      else Some 0)"

section \<open>components/ResumeInterviewPage.tsx\<close>

datatype InterviewState = Upload | Generating | InProgress | Evaluating | Summarizing | Results

datatype InterviewPhase = Thinking | Recording | Idle

record InterviewResult =
  rQuestion :: string
  rAnswer :: string
  rFeedback :: string
  rScore :: int

record File =
  fileName :: string
  fileType :: string

text \<open>The percentage of the interview \<open>ResultsView\<close>.\<close>

definition interview_percentage :: "InterviewResult list \<Rightarrow> int option" where
  "interview_percentage rs =
     (let totalScore = foldl (\<lambda>sum r. sum + rScore r) 0 rs;
          maxScore = int (length rs) * 5
      in if maxScore > 0
         then map_option (\<lambda>x. Math_round (x * 100)) (js_divide (of_int totalScore) (of_int maxScore))
         else Some 0)"

text \<open>
  The values the page keeps with \<^verbatim>\<open>useState\<close>. The page is modelled from the moment
  the proctoring adapter has reported ready, with the speech recognition API present.
\<close>

record page =
  resumeFile :: "File option"
  questions :: "string list"
  currentQuestionIndex :: nat
  interviewState :: InterviewState
  error :: "string option"
  interviewPhase :: InterviewPhase
  timer :: int
  transcribedText :: string
  allAnswers :: "string list"
  interviewResults :: "InterviewResult list"
  performanceSummary :: "PerformanceSummary option"
  isAdvancing :: bool
  recognitionError :: "string option"
  faceDetectionWarnings :: nat

text \<open>
  Calls the page makes, in order: to the recognition, to its \<^verbatim>\<open>onTerminate\<close> prop with
  the reason and the message, to the ledger's setter with the index and the value, and
  to the gateway. The prop is a parameter of the page (\<^verbatim>\<open>App.tsx\<close> mounts the page
  without passing one). A \<^verbatim>\<open>start()\<close> on a recognition that is still running throws; each
  capture is taken to have ended by the next start.
\<close>

datatype call =
    Rec_start
  | Rec_stop
  | Terminate string string
  | Set_answer nat string
  | Score_call string string
  | Summarize_call "InterviewResult list"

text \<open>
  A state value read by a handler or an effect is the constant its closure captured at
  the last render (\<open>snap\<close>); a setter queues an update, and the queued updates are
  applied in order at the next render (\<open>pend\<close> is the state with the queue applied).
  The two refs \<open>latestTranscript\<close> and \<open>isTerminatedRef\<close> are cells, written at once.
  \<open>warningOpacity\<close> is the visibility of the proctoring warning, \<open>countdown\<close> a timeout of
  the countdown effect that has not fired, \<open>handlers\<close> whether \<^verbatim>\<open>rec.onresult\<close> and
  \<^verbatim>\<open>rec.onerror\<close> are assigned, \<open>recStarted\<close> whether \<^verbatim>\<open>start()\<close> was ever called on
  the recognition (it delivers nothing before), \<open>startInFlight\<close> a start request that
  awaits its questions, \<open>evaluationsInFlight\<close> the batches awaiting their scores with
  the questions and answers they captured, \<open>summariesInFlight\<close> the summary calls
  awaiting their reply.
\<close>

record world =
  snap :: page
  pend :: page
  latestTranscript :: string
  isTerminatedRef :: bool
  warningOpacity :: bool
  countdown :: bool
  handlers :: bool
  recStarted :: bool
  startInFlight :: bool
  evaluationsInFlight :: "(string list \<times> string list) list"
  summariesInFlight :: nat
  trace :: "call list"

definition initial_page :: page where
  "initial_page =
     \<lparr>resumeFile = None, questions = [], currentQuestionIndex = 0, interviewState = Upload,
      error = None, interviewPhase = Idle, timer = 10, transcribedText = [],
      allAnswers = [], interviewResults = [], performanceSummary = None,
      isAdvancing = False, recognitionError = None, faceDetectionWarnings = 0\<rparr>"

text \<open>The world after the first render: the recognition effect has assigned the handlers.\<close>

definition initial_world :: world where
  "initial_world =
     \<lparr>snap = initial_page, pend = initial_page, latestTranscript = [],
      isTerminatedRef = False, warningOpacity = False, countdown = False, handlers = True,
      recStarted = False, startInFlight = False, evaluationsInFlight = [],
      summariesInFlight = 0, trace = []\<rparr>"

definition queue :: "(page \<Rightarrow> page) \<Rightarrow> world \<Rightarrow> world" where
  "queue f w = w\<lparr>pend := f (pend w)\<rparr>"

definition emit :: "call \<Rightarrow> world \<Rightarrow> world" where
  "emit c w = w\<lparr>trace := trace w @ [c]\<rparr>"

definition handleFaceOutOfFrame :: "world \<Rightarrow> world" where
  "handleFaceOutOfFrame w =
     (if isTerminatedRef w \<or> interviewState (snap w) \<noteq> InProgress then w
      else if faceDetectionWarnings (snap w) = 0
      then (queue (\<lambda>p. p\<lparr>faceDetectionWarnings := 1\<rparr>) w)\<lparr>warningOpacity := True\<rparr>
      else emit (Terminate ''face_detection''
                  ''Interview terminated due to repeated face detection issues.'')
             (w\<lparr>isTerminatedRef := True\<rparr>))"

definition allowedTypes :: "string list" where
  "allowedTypes =
     [''application/pdf'',
      ''application/vnd.openxmlformats-officedocument.wordprocessingml.document'',
      ''text/plain'']"

definition handleFileChange :: "File option \<Rightarrow> world \<Rightarrow> world" where
  "handleFileChange chosen w =
     (case chosen of
        None \<Rightarrow> w
      | Some file \<Rightarrow>
          if fileType file \<notin> set allowedTypes
          then queue (\<lambda>p. p\<lparr>error := Some ''Unsupported file type. Please upload a PDF, DOCX, or TXT file.''\<rparr>) w
          else queue (\<lambda>p. p\<lparr>resumeFile := Some file, error := None\<rparr>) w)"

text \<open>
  \<open>handleStartInterview\<close> in its two halves: up to the first \<^verbatim>\<open>await\<close>, and from the
  replies on. \<open>fileRead\<close> is what \<^verbatim>\<open>fileToDataUrl\<close> resolves to (\<open>None\<close> when it
  rejects), \<open>reply\<close> what the question source's remote call comes to.
\<close>

definition start_succeeded :: "string list \<Rightarrow> bool" where
  "start_succeeded generatedQuestions =
     (length generatedQuestions > 0 \<and>
      (case js_get generatedQuestions 0 of
         None \<Rightarrow> False
       | Some q0 \<Rightarrow> \<not> str_includes (toLowerCase q0) ''could not''))"

definition handleStartInterview_begin :: "world \<Rightarrow> world" where
  "handleStartInterview_begin w =
     (queue (\<lambda>p. p\<lparr>interviewState := Generating\<rparr>) w)\<lparr>startInFlight := True\<rparr>"

definition handleStartInterview_resume ::
  "bool \<Rightarrow> FileData option \<Rightarrow> questions_reply \<Rightarrow> world \<Rightarrow> world" where
  "handleStartInterview_resume apiKey fileRead reply w =
     (let w1 = w\<lparr>startInFlight := False\<rparr> in
      case fileRead of
        None \<Rightarrow>
          queue (\<lambda>p. p\<lparr>error := Some ''An unexpected error occurred.'',
                        interviewState := Upload\<rparr>) w1
      | Some fileData \<Rightarrow>
          (let generatedQuestions = generateQuestionsFromResume apiKey reply fileData in
           if start_succeeded generatedQuestions
           then queue (\<lambda>p. p\<lparr>questions := generatedQuestions,
                              allAnswers := replicate (length generatedQuestions) [],
                              interviewState := InProgress\<rparr>) w1
           else queue (\<lambda>p. p\<lparr>error := Some (or_else (js_get generatedQuestions 0)
                                              ''AI could not generate questions from this resume.''),
                              interviewState := Upload\<rparr>) w1))"

definition handleStartInterview ::
  "bool \<Rightarrow> FileData option \<Rightarrow> questions_reply \<Rightarrow> world \<Rightarrow> world" where
  "handleStartInterview apiKey fileRead reply w =
     (if resumeFile (snap w) = None then w
      else handleStartInterview_resume apiKey fileRead reply (handleStartInterview_begin w))"

definition handleAdvanceAfterRecording :: "world \<Rightarrow> world" where
  "handleAdvanceAfterRecording w =
     (if isAdvancing (snap w) \<or> isTerminatedRef w then w
      else
        (let finalAnswer = trim (latestTranscript w);
             i = currentQuestionIndex (snap w);
             w1 = queue (\<lambda>p. p\<lparr>isAdvancing := True\<rparr>) w;
             w2 = emit Rec_stop w1;
             w3 = emit (Set_answer i finalAnswer)
                    (queue (\<lambda>p. p\<lparr>allAnswers := js_set (allAnswers p) i finalAnswer\<rparr>) w2)
         in if int i < int (length (questions (snap w))) - 1
            then queue (\<lambda>p. p\<lparr>currentQuestionIndex := currentQuestionIndex p + 1\<rparr>) w3
            else queue (\<lambda>p. p\<lparr>interviewState := Evaluating\<rparr>) w3))"

text \<open>
  The handlers of the recognition. An event carries its results from \<^verbatim>\<open>resultIndex\<close>
  on, each with its transcript and its \<^verbatim>\<open>isFinal\<close> flag. The advance routine the error
  handler calls is the one of the render that assigned the handlers; the recognition
  effect assigns them anew whenever a value that routine reads has changed, so it
  reads \<open>snap\<close>.
\<close>

definition onresult :: "(string \<times> bool) list \<Rightarrow> world \<Rightarrow> world" where
  "onresult event w =
     (let finalTranscript = concat (map fst (filter snd event));
          w1 = w\<lparr>latestTranscript := latestTranscript w @ finalTranscript @ '' ''\<rparr>
      in queue (\<lambda>p. p\<lparr>transcribedText := latestTranscript w1\<rparr>) w1)"

definition error_message :: "string \<Rightarrow> string" where
  "error_message code =
     (if code = ''no-speech''
      then ''We didn't hear you. Please ensure your microphone is working and speak clearly.''
      else if code = ''not-allowed'' \<or> code = ''service-not-allowed''
      then ''Microphone access was denied. Please check your browser permissions.''
      else if code = ''audio-capture''
      then ''There was a problem with your microphone. Please check your hardware.''
      else ''An unknown microphone error occurred.'')"

definition onerror :: "string \<Rightarrow> world \<Rightarrow> world" where
  "onerror code w =
     handleAdvanceAfterRecording
       (queue (\<lambda>p. p\<lparr>recognitionError := Some (error_message code)\<rparr>) w)"

text \<open>The effects, each with the test that its dependencies changed between two renders.\<close>

definition setup_changed :: "page \<Rightarrow> page \<Rightarrow> bool" where
  "setup_changed old new =
     (interviewState old \<noteq> interviewState new
      \<or> currentQuestionIndex old \<noteq> currentQuestionIndex new
      \<or> length (questions old) \<noteq> length (questions new))"

definition advance_changed :: "page \<Rightarrow> page \<Rightarrow> bool" where
  "advance_changed old new =
     (isAdvancing old \<noteq> isAdvancing new
      \<or> currentQuestionIndex old \<noteq> currentQuestionIndex new
      \<or> length (questions old) \<noteq> length (questions new))"

definition countdown_changed :: "page \<Rightarrow> page \<Rightarrow> bool" where
  "countdown_changed old new =
     (timer old \<noteq> timer new \<or> interviewPhase old \<noteq> interviewPhase new
      \<or> interviewState old \<noteq> interviewState new \<or> advance_changed old new)"

definition evaluation_changed :: "page \<Rightarrow> page \<Rightarrow> bool" where
  "evaluation_changed old new =
     (interviewState old \<noteq> interviewState new \<or> questions old \<noteq> questions new
      \<or> allAnswers old \<noteq> allAnswers new)"

definition summary_changed :: "page \<Rightarrow> page \<Rightarrow> bool" where
  "summary_changed old new =
     (interviewState old \<noteq> interviewState new
      \<or> interviewResults old \<noteq> interviewResults new)"

definition question_setup :: "world \<Rightarrow> world" where
  "question_setup w =
     (if interviewState (snap w) = InProgress
         \<and> currentQuestionIndex (snap w) < length (questions (snap w))
      then (queue (\<lambda>p. p\<lparr>interviewPhase := Thinking, timer := 10, transcribedText := [],
                          isAdvancing := False, recognitionError := None\<rparr>) w)
             \<lparr>latestTranscript := []\<rparr>
      else w)"

definition recognition_cleanup :: "world \<Rightarrow> world" where
  "recognition_cleanup w = (if handlers w then emit Rec_stop (w\<lparr>handlers := False\<rparr>) else w)"

definition recognition_effect :: "world \<Rightarrow> world" where
  "recognition_effect w = (if isTerminatedRef w then w else w\<lparr>handlers := True\<rparr>)"

definition countdown_effect :: "world \<Rightarrow> world" where
  "countdown_effect w =
     (if interviewState (snap w) \<noteq> InProgress \<or> isTerminatedRef w then w
      else if timer (snap w) > 0 then w\<lparr>countdown := True\<rparr>
      else if interviewPhase (snap w) = Thinking
      then emit Rec_start
             ((queue (\<lambda>p. p\<lparr>interviewPhase := Recording, timer := 30\<rparr>) w)\<lparr>recStarted := True\<rparr>)
      else if interviewPhase (snap w) = Recording then handleAdvanceAfterRecording w
      else w)"

definition committed_answer :: "string list \<Rightarrow> nat \<Rightarrow> string" where
  "committed_answer answers i = or_else (js_get answers i) ''[No answer recorded]''"

definition score_calls :: "string list \<Rightarrow> string list \<Rightarrow> call list" where
  "score_calls qs answers =
     map (\<lambda>(i, q). Score_call q (committed_answer answers i)) (enumerate 0 qs)"

definition evaluation_effect :: "world \<Rightarrow> world" where
  "evaluation_effect w =
     (if interviewState (snap w) = Evaluating
      then w\<lparr>trace := trace w @ score_calls (questions (snap w)) (allAnswers (snap w)),
             evaluationsInFlight :=
               evaluationsInFlight w @ [(questions (snap w), allAnswers (snap w))]\<rparr>
      else w)"

definition summary_effect :: "world \<Rightarrow> world" where
  "summary_effect w =
     (if interviewState (snap w) = Summarizing
      then emit (Summarize_call (interviewResults (snap w)))
             (w\<lparr>summariesInFlight := summariesInFlight w + 1\<rparr>)
      else w)"

text \<open>
  A render: the queued state becomes the state the closures read; of the effects whose
  dependencies changed, first the cleanups run, then the bodies, in the order of their
  declaration. Arrays among the dependencies are compared by their contents.
\<close>

definition render :: "world \<Rightarrow> world" where
  "render w =
     (let old = snap w; new = pend w;
          w0 = w\<lparr>snap := new\<rparr>;
          w1 = (if advance_changed old new then recognition_cleanup w0 else w0);
          w2 = (if countdown_changed old new then w1\<lparr>countdown := False\<rparr> else w1);
          w3 = (if setup_changed old new then question_setup w2 else w2);
          w4 = (if advance_changed old new then recognition_effect w3 else w3);
          w5 = (if countdown_changed old new then countdown_effect w4 else w4);
          w6 = (if evaluation_changed old new then evaluation_effect w5 else w5)
      in if summary_changed old new then summary_effect w6 else w6)"

text \<open>
  The completions of the batch evaluation and of the summary. \<open>replies i\<close> is what the
  scoring call for question \<open>i\<close> meets: the random draw of demo mode and the remote reply.
\<close>

definition evaluatedResults ::
  "bool \<Rightarrow> (nat \<Rightarrow> rat \<times> eval_reply) \<Rightarrow> string list \<Rightarrow> string list \<Rightarrow> Evaluation list" where
  "evaluatedResults apiKey replies qs answers =
     map (\<lambda>(i, q). evaluateAnswer apiKey (fst (replies i)) (snd (replies i)) q
                     (committed_answer answers i))
         (enumerate 0 qs)"

text \<open>
  \<^verbatim>\<open>{ question: q, answer: ..., ...evaluatedResults[i] }\<close>: the keys of the evaluation
  are spread after the two the page sets, so a \<^verbatim>\<open>question\<close> or an \<^verbatim>\<open>answer\<close> key of the
  evaluation replaces them. An index without an evaluation (there is none, the two arrays
  have the same length) would spread nothing and leave the feedback and the score
  undefined, stored here as the empty string and 0.
\<close>

definition spread :: "string \<Rightarrow> string \<Rightarrow> Evaluation option \<Rightarrow> InterviewResult" where
  "spread q a evaluation =
     (case evaluation of
        None \<Rightarrow> \<lparr>rQuestion = q, rAnswer = a, rFeedback = [], rScore = 0\<rparr>
      | Some e \<Rightarrow>
          \<lparr>rQuestion = (case question_key e of None \<Rightarrow> q | Some q' \<Rightarrow> q'),
           rAnswer = (case answer_key e of None \<Rightarrow> a | Some a' \<Rightarrow> a'),
           rFeedback = feedback e, rScore = score e\<rparr>)"

definition finalResults ::
  "bool \<Rightarrow> (nat \<Rightarrow> rat \<times> eval_reply) \<Rightarrow> string list \<Rightarrow> string list \<Rightarrow> InterviewResult list" where
  "finalResults apiKey replies qs answers =
     map (\<lambda>(i, q). spread q (committed_answer answers i)
                      (js_get (evaluatedResults apiKey replies qs answers) i))
         (enumerate 0 qs)"

definition scores_arrive :: "bool \<Rightarrow> (nat \<Rightarrow> rat \<times> eval_reply) \<Rightarrow> world \<Rightarrow> world" where
  "scores_arrive apiKey replies w =
     (case evaluationsInFlight w of
        [] \<Rightarrow> w
      | (qs, answers) # rest \<Rightarrow>
          queue (\<lambda>p. p\<lparr>interviewResults := finalResults apiKey replies qs answers,
                        interviewState := Summarizing\<rparr>)
            (w\<lparr>evaluationsInFlight := rest\<rparr>))"

definition summary_arrives :: "bool \<Rightarrow> summary_reply \<Rightarrow> world \<Rightarrow> world" where
  "summary_arrives apiKey reply w =
     (if summariesInFlight w = 0 then w
      else queue (\<lambda>p. p\<lparr>performanceSummary := Some (summarizeInterviewPerformance apiKey reply),
                         interviewState := Results\<rparr>)
             (w\<lparr>summariesInFlight := summariesInFlight w - 1\<rparr>))"

text \<open>
  What can happen to the page. The file input and the start button exist in the upload
  view, the button enabled with a file chosen and no error shown; a click is followed
  by its render before anything else runs. The countdown's timeout fires if it is
  pending. The recognition delivers to assigned handlers once it was started. The other
  events are callbacks of the adapters and of the gateway, and the render React
  schedules for queued updates.
\<close>

datatype event =
    Face_absent
  | Warning_timeout
  | File_change "File option"
  | Start_click
  | Questions_arrive "FileData option" questions_reply
  | Timer_fire
  | Rec_result "(string \<times> bool) list"
  | Rec_error string
  | Scores_arrive "nat \<Rightarrow> rat \<times> eval_reply"
  | Summary_arrives summary_reply
  | Render

fun step :: "bool \<Rightarrow> event \<Rightarrow> world \<Rightarrow> world" where
  "step apiKey Face_absent w = handleFaceOutOfFrame w"
| "step apiKey Warning_timeout w = w\<lparr>warningOpacity := False\<rparr>"
| "step apiKey (File_change chosen) w =
     (if interviewState (snap w) = Upload then render (handleFileChange chosen w) else w)"
| "step apiKey Start_click w =
     (if interviewState (snap w) = Upload \<and> resumeFile (snap w) \<noteq> None \<and> error (snap w) = None
      then render (handleStartInterview_begin w) else w)"
| "step apiKey (Questions_arrive fileRead reply) w =
     (if startInFlight w then handleStartInterview_resume apiKey fileRead reply w else w)"
| "step apiKey Timer_fire w =
     (if countdown w then queue (\<lambda>p. p\<lparr>timer := timer p - 1\<rparr>) (w\<lparr>countdown := False\<rparr>) else w)"
| "step apiKey (Rec_result ev) w = (if handlers w \<and> recStarted w then onresult ev w else w)"
| "step apiKey (Rec_error code) w = (if handlers w \<and> recStarted w then onerror code w else w)"
| "step apiKey (Scores_arrive replies) w = scores_arrive apiKey replies w"
| "step apiKey (Summary_arrives reply) w = summary_arrives apiKey reply w"
| "step apiKey Render w = render w"

definition run :: "bool \<Rightarrow> event list \<Rightarrow> world \<Rightarrow> world" where
  "run apiKey es w = foldl (\<lambda>w e. step apiKey e w) w es"

section \<open>Notions used in the statements\<close>

text \<open>
  An object with the three keys of a quiz question, whatever is stored under them.
\<close>

definition keyed_object :: "json \<Rightarrow> bool" where
  "keyed_object v =
     (case v of
        J_object members \<Rightarrow>
          list_all (\<lambda>k. k \<in> fst ` set members) [''question'', ''options'', ''correctAnswer'']
      | _ \<Rightarrow> False)"

text \<open>
  The replies of the typed generator as JSON values: an accepted item is the object
  with its three typed members; an object without keys and \<^verbatim>\<open>null\<close> stand for the items
  that fail the check, \<^verbatim>\<open>null\<close> for a parsed value that is not an array.
\<close>

fun item_json :: "mcq_item \<Rightarrow> json" where
  "item_json (Item_ok m) = mcq_json m"
| "item_json Item_missing_key = J_object []"
| "item_json Item_not_object = J_null"

fun reply_json :: "mcq_reply \<Rightarrow> json_reply" where
  "reply_json Mcq_threw = Json_threw"
| "reply_json (Mcq_array items) = Json_parsed (J_array (map item_json items))"
| "reply_json Mcq_other = Json_parsed J_null"

text \<open>
  A reply whose one item has the three keys and none of the declared types, and a reply
  whose one item lacks two of the keys.
\<close>

definition ill_typed_item :: json where
  "ill_typed_item =
     J_object [(''question'', J_number 1), (''options'', J_string ''abc''),
               (''correctAnswer'', J_null)]"

definition question_only_item :: json where
  "question_only_item = J_object [(''question'', J_string ''What is a stack?'')]"

text \<open>A user who, question after question, selects the given option and presses next.\<close>

fun answer_all :: "string list \<Rightarrow> mcq_page \<Rightarrow> mcq_page" where
  "answer_all [] s = s"
| "answer_all (c # cs) s = answer_all cs (handleNextQuestion (handleSelectAnswer c s))"

text \<open>
  The invariant of the quiz page: one slot per question, the index at zero while a
  subject is selected, a non-empty answer in every slot below the index, and in every
  slot once the score is computed.
\<close>

definition mcq_inv :: "mcq_page \<Rightarrow> bool" where
  "mcq_inv s =
     (length (userAnswers s) = length (mcqQuestions s)
      \<and> (mcqState s = Select \<longrightarrow> mcqIndex s = 0)
      \<and> (\<forall>j < mcqIndex s. j < length (mcqQuestions s) \<and> userAnswers s ! j \<noteq> [])
      \<and> (mcqState s = McqSummarizing \<or> mcqState s = McqResults \<longrightarrow>
           (\<forall>j < length (mcqQuestions s). userAnswers s ! j \<noteq> [])))"

text \<open>Concrete inputs: a quiz of one question, on its last question, answered.\<close>

definition lifo_question :: MCQ where
  "lifo_question =
     \<lparr>question = ''Which data structure operates on a Last-In, First-Out (LIFO) basis?'',
      options = [''Queue'', ''Stack'', ''Linked List'', ''Tree''],
      correctAnswer = ''Stack''\<rparr>"

definition stack_quiz :: mcq_page where
  "stack_quiz =
     \<lparr>selectedSubject = Some DSA, mcqQuestions = [lifo_question],
      mcqIndex = 0, userAnswers = [''Stack''], mcqState = McqInProgress, mcqScore = 0,
      mcqSummary = None\<rparr>"

text \<open>
  The stages of the interview in their order; the two stages before the interview
  share a rank.
\<close>

fun rank :: "InterviewState \<Rightarrow> nat" where
  "rank Upload = 0"
| "rank Generating = 0"
| "rank InProgress = 1"
| "rank Evaluating = 2"
| "rank Summarizing = 3"
| "rank Results = 4"

text \<open>The number of calls of the termination callback in a trace.\<close>

fun terminate_calls :: "call list \<Rightarrow> nat" where
  "terminate_calls [] = 0"
| "terminate_calls (Terminate reason message # cs) = Suc (terminate_calls cs)"
| "terminate_calls (_ # cs) = terminate_calls cs"

text \<open>
  The invariant of the interview page. The rendered stage never runs ahead of the
  queued one into the interview or into the evaluation; from the evaluation on the
  advance lock is held; nothing is in flight before its stage; the termination
  callback was called once if the session is terminated and never otherwise; the
  ledger has one slot per question; before the interview there are no questions, the
  index is zero and the recognition was never started; during and after it the queued
  questions are the rendered ones; with the lock released the index points at a
  question; and the rendered index is never ahead of the queued one.
\<close>

definition inv :: "world \<Rightarrow> bool" where
  "inv w =
     (let s = snap w; p = pend w in
      (rank (interviewState p) = 0 \<longrightarrow> rank (interviewState s) = 0)
      \<and> (rank (interviewState p) \<le> 1 \<longrightarrow> rank (interviewState s) \<le> 1)
      \<and> (2 \<le> rank (interviewState s) \<longrightarrow> isAdvancing s)
      \<and> (2 \<le> rank (interviewState p) \<longrightarrow> isAdvancing p)
      \<and> (rank (interviewState s) \<le> 1 \<longrightarrow> evaluationsInFlight w = [] \<and> summariesInFlight w = 0)
      \<and> (startInFlight w \<longrightarrow> interviewState s = Generating \<and> interviewState p = Generating)
      \<and> terminate_calls (trace w) = (if isTerminatedRef w then 1 else 0)
      \<and> length (allAnswers p) = length (questions p)
      \<and> length (allAnswers s) = length (questions s)
      \<and> (rank (interviewState s) = 0 \<longrightarrow>
            \<not> recStarted w \<and> currentQuestionIndex p = 0 \<and> currentQuestionIndex s = 0
            \<and> questions s = [])
      \<and> (rank (interviewState p) = 0 \<longrightarrow> questions p = [])
      \<and> (interviewState s = Upload \<longrightarrow> interviewState p = Upload)
      \<and> (1 \<le> rank (interviewState s) \<longrightarrow> questions p = questions s)
      \<and> (\<not> isAdvancing s \<and> 1 \<le> rank (interviewState s) \<longrightarrow>
            currentQuestionIndex s < length (questions s))
      \<and> (\<not> isAdvancing p \<and> 1 \<le> rank (interviewState p) \<longrightarrow>
            currentQuestionIndex p < length (questions p))
      \<and> currentQuestionIndex s \<le> currentQuestionIndex p)"


text \<open>A world right after a render: nothing is queued for the stage, the index or the questions.\<close>

definition agree :: "world \<Rightarrow> bool" where
  "agree w =
     (interviewState (pend w) = interviewState (snap w)
      \<and> currentQuestionIndex (pend w) = currentQuestionIndex (snap w)
      \<and> questions (pend w) = questions (snap w))"


text \<open>The scoring calls of a trace, each with its question and its answer.\<close>

fun score_calls_of :: "call list \<Rightarrow> (string \<times> string) list" where
  "score_calls_of [] = []"
| "score_calls_of (Score_call q a # cs) = (q, a) # score_calls_of cs"
| "score_calls_of (_ # cs) = score_calls_of cs"

text \<open>
  A reply of the scoring call that \<open>evaluateAnswer\<close> does not accept: an exception, or a
  parsed object whose feedback is not a string or whose score is not a number.
\<close>

definition eval_failed :: "eval_reply \<Rightarrow> bool" where
  "eval_failed reply =
     (case reply of Eval_parsed (Some f) (Some sc) qk ak \<Rightarrow> False | _ \<Rightarrow> True)"

text \<open>
  A render read as a composition: an effect runs if its dependencies changed.
  \<open>settle\<close> is the render up to the countdown effect.
\<close>

definition run_if :: "bool \<Rightarrow> (world \<Rightarrow> world) \<Rightarrow> world \<Rightarrow> world" where
  "run_if c f w = (if c then f w else w)"

definition settle :: "world \<Rightarrow> world" where
  "settle w =
     run_if (advance_changed (snap w) (pend w)) recognition_effect
       (run_if (setup_changed (snap w) (pend w)) question_setup
         (run_if (countdown_changed (snap w) (pend w)) (\<lambda>v. v\<lparr>countdown := False\<rparr>)
           (run_if (advance_changed (snap w) (pend w)) recognition_cleanup
             (w\<lparr>snap := pend w\<rparr>))))"


text \<open>
  Concrete inputs of the interview: a file, what reading it gives, and the events that
  take a session of three questions to the last second of the first recording, with
  one finalized fragment in the transcript buffer.
\<close>

definition resume_pdf :: File where
  "resume_pdf = \<lparr>fileName = ''cv.pdf'', fileType = ''application/pdf''\<rparr>"

definition resume_data :: FileData where
  "resume_data = \<lparr>base64 = ''QQ=='', mimeType = ''application/pdf''\<rparr>"

definition ticks :: "nat \<Rightarrow> event list" where
  "ticks n = concat (replicate n [Timer_fire, Render])"

definition to_last_second :: "string list \<Rightarrow> event list" where
  "to_last_second qs =
     [File_change (Some resume_pdf), Start_click,
      Questions_arrive (Some resume_data) (Parsed_array qs), Render, Render]
     @ ticks 10 @ [Render] @ ticks 29 @ [Rec_result [(''hello world'', True)]]"

text \<open>The ledger writes of a trace, each with its index and its value.\<close>

fun ledger_writes :: "call list \<Rightarrow> (nat \<times> string) list" where
  "ledger_writes [] = []"
| "ledger_writes (Set_answer i a # cs) = (i, a) # ledger_writes cs"
| "ledger_writes (_ # cs) = ledger_writes cs"

text \<open>
  The number of questions the queued state has passed: the queued index, or all the
  questions once the evaluation is queued.
\<close>

definition written :: "world \<Rightarrow> nat" where
  "written w =
     (if 2 \<le> rank (interviewState (pend w)) then length (questions (pend w))
      else currentQuestionIndex (pend w))"

text \<open>
  A transcription error delivered while an advance has queued the lock and no render
  has shown it yet: its handler's advance routine still reads the lock as released.
  \<open>separated\<close> are the event sequences in which this never happens.
\<close>

fun slips :: "event \<Rightarrow> world \<Rightarrow> bool" where
  "slips (Rec_error code) w = (\<not> isAdvancing (snap w) \<and> isAdvancing (pend w))"
| "slips _ w = False"

fun separated :: "bool \<Rightarrow> event list \<Rightarrow> world \<Rightarrow> bool" where
  "separated apiKey [] w = True"
| "separated apiKey (e # es) w = (\<not> slips e w \<and> separated apiKey es (step apiKey e w))"

text \<open>
  The ledger writes so far are one per passed question, in the order of the questions;
  and with no lock queued, the rendered index is the queued one.
\<close>

definition written_once :: "world \<Rightarrow> bool" where
  "written_once w =
     ((\<not> isAdvancing (pend w) \<longrightarrow> currentQuestionIndex (snap w) = currentQuestionIndex (pend w))
      \<and> map fst (ledger_writes (trace w)) = [0..<written w])"

text \<open>
  Nothing is queued for the stage, the index, the questions or the sub-phase.
\<close>

definition quiet :: "world \<Rightarrow> bool" where
  "quiet w = (agree w \<and> interviewPhase (pend w) = interviewPhase (snap w))"

text \<open>
  A terminated session held at sub-phase \<open>ph\<close> and index \<open>i\<close>, in the rendered state and
  in the queued one.
\<close>

definition frozen :: "InterviewPhase \<Rightarrow> nat \<Rightarrow> world \<Rightarrow> bool" where
  "frozen ph i w =
     (inv w \<and> isTerminatedRef w
      \<and> interviewState (snap w) = InProgress \<and> interviewState (pend w) = InProgress
      \<and> interviewPhase (snap w) = ph \<and> interviewPhase (pend w) = ph
      \<and> currentQuestionIndex (snap w) = i \<and> currentQuestionIndex (pend w) = i)"


text \<open>
  A terminated session whose rendered state is \<open>s\<close> and whose queued state is in
  progress at sub-phase \<open>ph\<close> and index \<open>i\<close>.
\<close>

definition held :: "page \<Rightarrow> InterviewPhase \<Rightarrow> nat \<Rightarrow> world \<Rightarrow> bool" where
  "held s ph i w =
     (inv w \<and> isTerminatedRef w \<and> snap w = s \<and> interviewState s = InProgress
      \<and> interviewState (pend w) = InProgress \<and> interviewPhase (pend w) = ph
      \<and> currentQuestionIndex (pend w) = i)"

text \<open>
  Worlds the page reaches: with a file chosen; in the last second of the first
  recording of three questions; the same after a first face-absence event and its
  render, the countdown run out and the advance to the second question queued by the
  render's countdown effect; likewise in a session of one question, where the advance
  has queued the evaluation; after the advance on the
  last of three questions, the second left unanswered, with the replies its scoring
  calls meet (one accepted, one thrown, one accepted that carries a question of its
  own); on the second question; and a quiz on its second question.
\<close>

definition three_questions :: "string list" where
  "three_questions = [''Q1'', ''Q2'', ''Q3'']"

definition upload_world :: world where
  "upload_world = run True [File_change (Some resume_pdf)] initial_world"

definition recording_world :: world where
  "recording_world = run True (to_last_second three_questions) initial_world"

definition queued_advance_world :: world where
  "queued_advance_world =
     run True (to_last_second three_questions @ [Face_absent, Render, Timer_fire, Render])
       initial_world"

definition queued_evaluation_world :: world where
  "queued_evaluation_world =
     run True (to_last_second [''Q1''] @ [Face_absent, Render, Timer_fire, Render])
       initial_world"

definition three_answers :: "event list" where
  "three_answers =
     [File_change (Some resume_pdf), Start_click,
      Questions_arrive (Some resume_data) (Parsed_array three_questions), Render, Render]
     @ ticks 10 @ [Render, Rec_result [(''first answer'', True)], Rec_error ''network'',
                   Render, Render]
     @ ticks 10 @ [Render, Rec_error ''no-speech'', Render, Render]
     @ ticks 10 @ [Render, Rec_result [(''third answer'', True)], Rec_error ''network'']"

definition answered_world :: world where
  "answered_world = run True three_answers initial_world"

definition mixed_replies :: "nat \<Rightarrow> rat \<times> eval_reply" where
  "mixed_replies i =
     (if i = 0 then (0, Eval_parsed (Some ''Good'') (Some 4) None None)
      else if i = 1 then (0, Eval_threw)
      else (0, Eval_parsed (Some ''Clear'') (Some 5) (Some ''Another question'') None))"

text \<open>
  A demo session (no API key, so the ten sample questions; the reply of the question
  source is not read) in which every recording ends with a transcription error and
  nothing was said, after the advance on the last question.
\<close>

definition demo_answers :: "event list" where
  "demo_answers =
     [File_change (Some resume_pdf), Start_click,
      Questions_arrive (Some resume_data) Parsed_other, Render, Render]
     @ ticks 10 @ [Render]
     @ concat (replicate 9 [Rec_error ''no-speech'', Render, Render])
     @ [Rec_error ''no-speech'']"

definition demo_answered_world :: world where
  "demo_answered_world = run False demo_answers initial_world"

definition second_question_world :: world where
  "second_question_world =
     run True (to_last_second three_questions @ [Timer_fire, Render, Render, Render]) initial_world"

definition second_question_quiz :: mcq_page where
  "second_question_quiz =
     mcq_run False [Click_subject DSA Mcq_threw, Click_option 0, Click_next] mcq_initial"


section \<open>The invariant of the interview page\<close>

lemma terminate_calls_append [simp]:
  "terminate_calls (xs @ ys) = terminate_calls xs + terminate_calls ys"
  by (induction xs rule: terminate_calls.induct) auto

lemma terminate_calls_score_calls [simp]: "terminate_calls (score_calls qs as) = 0"
proof -
  have "terminate_calls (map (\<lambda>(i, q). Score_call q (committed_answer as i)) xs) = 0" for xs
    by (induction xs) auto
  then show ?thesis by (simp add: score_calls_def)
qed


lemma inv_initial: "inv initial_world"
  by (simp add: inv_def initial_world_def initial_page_def)

lemma inv_face: "inv w \<Longrightarrow> inv (handleFaceOutOfFrame w)"
  unfolding inv_def handleFaceOutOfFrame_def queue_def emit_def Let_def
  by (cases "interviewState (snap w)"; cases "interviewState (pend w)"; simp; auto)

lemma advance_unlocked:
  "\<not> isAdvancing (snap w) \<Longrightarrow> \<not> isTerminatedRef w \<Longrightarrow>
   handleAdvanceAfterRecording w =
     w\<lparr>pend := (if int (currentQuestionIndex (snap w)) < int (length (questions (snap w))) - 1
                then (pend w)\<lparr>isAdvancing := True,
                       allAnswers := js_set (allAnswers (pend w)) (currentQuestionIndex (snap w))
                                       (trim (latestTranscript w)),
                       currentQuestionIndex := currentQuestionIndex (pend w) + 1\<rparr>
                else (pend w)\<lparr>isAdvancing := True,
                       allAnswers := js_set (allAnswers (pend w)) (currentQuestionIndex (snap w))
                                       (trim (latestTranscript w)),
                       interviewState := Evaluating\<rparr>),
       trace := trace w @ [Rec_stop, Set_answer (currentQuestionIndex (snap w))
                                       (trim (latestTranscript w))]\<rparr>"
  by (simp add: handleAdvanceAfterRecording_def queue_def emit_def Let_def)

lemma advance_locked:
  "isAdvancing (snap w) \<or> isTerminatedRef w \<Longrightarrow> handleAdvanceAfterRecording w = w"
  by (simp add: handleAdvanceAfterRecording_def)

lemma inv_in_range:
  "inv w \<Longrightarrow> \<not> isAdvancing (snap w) \<Longrightarrow> 1 \<le> rank (interviewState (snap w)) \<Longrightarrow>
   currentQuestionIndex (snap w) < length (allAnswers (pend w))"
  unfolding inv_def Let_def
  by (cases "interviewState (snap w)"; simp)

lemma inv_advance:
  assumes "inv w" and "1 \<le> rank (interviewState (snap w))"
  shows "inv (handleAdvanceAfterRecording w)"
proof (cases "isAdvancing (snap w) \<or> isTerminatedRef w")
  case True
  with assms show ?thesis by (simp add: advance_locked)
next
  case False
  then have u: "\<not> isAdvancing (snap w)" "\<not> isTerminatedRef w" by auto
  have len: "length (js_set (allAnswers (pend w)) (currentQuestionIndex (snap w)) v)
             = length (allAnswers (pend w))" for v
    using inv_in_range[OF assms(1) u(1) assms(2)] by (simp add: js_set_def)
  show ?thesis
    using assms u unfolding inv_def Let_def advance_unlocked[OF u]
    by (cases "interviewState (snap w)"; cases "interviewState (pend w)"; simp add: len; auto)
qed

lemma inv_file: "inv w \<Longrightarrow> inv (handleFileChange chosen w)"
  unfolding inv_def handleFileChange_def queue_def Let_def
  by (cases chosen) simp_all

lemma inv_begin:
  "inv w \<Longrightarrow> interviewState (snap w) = Upload \<Longrightarrow>
   inv ((handleStartInterview_begin w)\<lparr>snap := pend (handleStartInterview_begin w)\<rparr>)
   \<and> agree ((handleStartInterview_begin w)\<lparr>snap := pend (handleStartInterview_begin w)\<rparr>)"
  unfolding inv_def agree_def handleStartInterview_begin_def queue_def Let_def
  by (cases "interviewState (pend w)"; simp)

lemma start_succeeded_nonempty: "start_succeeded gq \<Longrightarrow> gq \<noteq> []"
  by (auto simp: start_succeeded_def)

lemma inv_resume:
  assumes "inv w" and "startInFlight w"
  shows "inv (handleStartInterview_resume apiKey fileRead reply w)"
proof -
  have g: "interviewState (snap w) = Generating" "interviewState (pend w) = Generating"
    using assms by (auto simp: inv_def Let_def)
  show ?thesis
  proof (cases fileRead)
    case None
    with assms g show ?thesis
      unfolding inv_def handleStartInterview_resume_def queue_def Let_def by simp
  next
    case (Some fileData)
    show ?thesis
    proof (cases "start_succeeded (generateQuestionsFromResume apiKey reply fileData)")
      case True
      with assms g Some start_succeeded_nonempty[OF True] show ?thesis
        unfolding inv_def handleStartInterview_resume_def queue_def Let_def by simp
    next
      case False
      with assms g Some show ?thesis
        unfolding inv_def handleStartInterview_resume_def queue_def Let_def by simp
    qed
  qed
qed

lemma inv_timer: "inv w \<Longrightarrow> inv (queue (\<lambda>p. p\<lparr>timer := timer p - 1\<rparr>) (w\<lparr>countdown := False\<rparr>))"
  unfolding inv_def queue_def Let_def by simp

lemma inv_onresult: "inv w \<Longrightarrow> inv (onresult ev w)"
  unfolding inv_def onresult_def queue_def Let_def by simp

lemma inv_recognition_error:
  "inv w \<Longrightarrow> inv (queue (\<lambda>p. p\<lparr>recognitionError := Some m\<rparr>) w)"
  unfolding inv_def queue_def Let_def by simp

lemma inv_started: "inv w \<Longrightarrow> recStarted w \<Longrightarrow> 1 \<le> rank (interviewState (snap w))"
  unfolding inv_def Let_def by (cases "interviewState (snap w)"; simp)

lemma inv_onerror:
  assumes "inv w" and "recStarted w"
  shows "inv (onerror code w)"
proof -
  let ?w = "queue (\<lambda>p. p\<lparr>recognitionError := Some (error_message code)\<rparr>) w"
  have a: "inv ?w" using assms(1) by (rule inv_recognition_error)
  have b: "1 \<le> rank (interviewState (snap ?w))"
    using inv_started[OF assms] by (simp add: queue_def)
  show ?thesis unfolding onerror_def using a b by (rule inv_advance)
qed

lemma scores_arrive_batch:
  "evaluationsInFlight w = (qs, answers) # rest \<Longrightarrow>
   scores_arrive apiKey replies w =
     w\<lparr>evaluationsInFlight := rest,
       pend := (pend w)\<lparr>interviewResults := finalResults apiKey replies qs answers,
                         interviewState := Summarizing\<rparr>\<rparr>"
  by (simp add: scores_arrive_def queue_def)

lemma inv_scores:
  assumes "inv w"
  shows "inv (scores_arrive apiKey replies w)"
proof (cases "evaluationsInFlight w")
  case Nil
  with assms show ?thesis by (simp add: scores_arrive_def)
next
  case (Cons b rest)
  obtain qs answers where b: "b = (qs, answers)" by (cases b)
  define R where "R = finalResults apiKey replies qs answers"
  have e: "scores_arrive apiKey replies w =
     w\<lparr>evaluationsInFlight := rest,
       pend := (pend w)\<lparr>interviewResults := R, interviewState := Summarizing\<rparr>\<rparr>"
    using Cons b by (simp add: scores_arrive_batch R_def)
  show ?thesis
    using assms Cons unfolding e inv_def Let_def
    by (cases "interviewState (snap w)"; simp; auto)
qed

lemma inv_summary: "inv w \<Longrightarrow> inv (summary_arrives apiKey reply w)"
  unfolding inv_def summary_arrives_def queue_def Let_def
  by (cases "interviewState (snap w)"; cases "interviewState (pend w)"; simp; auto)

lemma inv_sync: "inv w \<Longrightarrow> inv (w\<lparr>snap := pend w\<rparr>) \<and> agree (w\<lparr>snap := pend w\<rparr>)"
  unfolding inv_def agree_def Let_def
  by (cases "interviewState (snap w)"; cases "interviewState (pend w)"; simp; auto)

lemma inv_recognition_cleanup:
  "inv w \<and> agree w \<Longrightarrow> inv (recognition_cleanup w) \<and> agree (recognition_cleanup w)"
  unfolding inv_def agree_def recognition_cleanup_def emit_def Let_def
  by (cases "interviewState (snap w)"; simp; auto)

lemma inv_countdown_clear:
  "inv w \<and> agree w \<Longrightarrow> inv (w\<lparr>countdown := False\<rparr>) \<and> agree (w\<lparr>countdown := False\<rparr>)"
  unfolding inv_def agree_def Let_def
  by (cases "interviewState (snap w)"; simp; auto)

lemma inv_question_setup:
  "inv w \<and> agree w \<Longrightarrow> inv (question_setup w) \<and> agree (question_setup w)"
  unfolding inv_def agree_def question_setup_def queue_def Let_def
  by (cases "interviewState (snap w)"; simp; auto)

lemma inv_recognition_effect:
  "inv w \<and> agree w \<Longrightarrow> inv (recognition_effect w) \<and> agree (recognition_effect w)"
  unfolding inv_def agree_def recognition_effect_def Let_def
  by (cases "interviewState (snap w)"; simp; auto)

lemma inv_countdown_effect:
  assumes "inv w \<and> agree w"
  shows "inv (countdown_effect w)"
proof (cases "interviewState (snap w) = InProgress")
  case False
  with assms show ?thesis by (simp add: countdown_effect_def)
next
  case True
  then have r: "1 \<le> rank (interviewState (snap w))" by simp
  have start: "inv (emit Rec_start
             ((queue (\<lambda>p. p\<lparr>interviewPhase := Recording, timer := 30\<rparr>) w)\<lparr>recStarted := True\<rparr>))"
    using assms True unfolding inv_def agree_def queue_def emit_def Let_def
    by (simp; auto)
  have arm: "inv (w\<lparr>countdown := True\<rparr>)"
    using assms unfolding inv_def Let_def by simp
  show ?thesis
    using assms start arm inv_advance[OF _ r] by (simp add: countdown_effect_def)
qed

lemma inv_evaluation_effect: "inv w \<Longrightarrow> inv (evaluation_effect w)"
  unfolding inv_def evaluation_effect_def Let_def
  by (cases "interviewState (snap w)"; simp; auto)

lemma inv_summary_effect: "inv w \<Longrightarrow> inv (summary_effect w)"
  unfolding inv_def summary_effect_def emit_def Let_def
  by (cases "interviewState (snap w)"; simp; auto)

lemma inv_render_sync:
  assumes "inv (w\<lparr>snap := pend w\<rparr>) \<and> agree (w\<lparr>snap := pend w\<rparr>)"
  shows "inv (render w)"
proof -
  define old where "old = snap w"
  define new where "new = pend w"
  define w0 where "w0 = w\<lparr>snap := new\<rparr>"
  define w1 where "w1 = (if advance_changed old new then recognition_cleanup w0 else w0)"
  define w2 where "w2 = (if countdown_changed old new then w1\<lparr>countdown := False\<rparr> else w1)"
  define w3 where "w3 = (if setup_changed old new then question_setup w2 else w2)"
  define w4 where "w4 = (if advance_changed old new then recognition_effect w3 else w3)"
  define w5 where "w5 = (if countdown_changed old new then countdown_effect w4 else w4)"
  define w6 where "w6 = (if evaluation_changed old new then evaluation_effect w5 else w5)"
  have r: "render w = (if summary_changed old new then summary_effect w6 else w6)"
    unfolding render_def w6_def w5_def w4_def w3_def w2_def w1_def w0_def old_def new_def
    by (simp only: Let_def)
  have 0: "inv w0 \<and> agree w0" using assms by (simp add: w0_def new_def)
  have 1: "inv w1 \<and> agree w1" using 0 inv_recognition_cleanup by (simp add: w1_def)
  have 2: "inv w2 \<and> agree w2" using 1 inv_countdown_clear by (simp add: w2_def)
  have 3: "inv w3 \<and> agree w3" using 2 inv_question_setup by (simp add: w3_def)
  have 4: "inv w4 \<and> agree w4" using 3 inv_recognition_effect by (simp add: w4_def)
  have 5: "inv w5" using 4 inv_countdown_effect by (simp add: w5_def)
  have 6: "inv w6" using 5 inv_evaluation_effect by (simp add: w6_def)
  show ?thesis using 6 inv_summary_effect by (simp add: r)
qed

lemma inv_render: "inv w \<Longrightarrow> inv (render w)"
  by (rule inv_render_sync) (rule inv_sync)

lemma inv_step: "inv w \<Longrightarrow> inv (step apiKey e w)"
proof (cases e)
  case Face_absent
  assume "inv w" then show ?thesis by (simp add: Face_absent inv_face)
next
  case Warning_timeout
  assume "inv w" then show ?thesis by (simp add: Warning_timeout inv_def Let_def)
next
  case (File_change chosen)
  assume "inv w" then show ?thesis by (simp add: File_change inv_file inv_render)
next
  case Start_click
  assume "inv w" then show ?thesis by (simp add: Start_click inv_begin inv_render_sync)
next
  case (Questions_arrive fileRead reply)
  assume "inv w" then show ?thesis by (simp add: Questions_arrive inv_resume)
next
  case Timer_fire
  assume "inv w" then show ?thesis by (simp add: Timer_fire inv_timer)
next
  case (Rec_result ev)
  assume "inv w" then show ?thesis by (simp add: Rec_result inv_onresult)
next
  case (Rec_error code)
  assume "inv w" then show ?thesis by (simp add: Rec_error inv_onerror)
next
  case (Scores_arrive replies)
  assume "inv w" then show ?thesis by (simp add: Scores_arrive inv_scores)
next
  case (Summary_arrives reply)
  assume "inv w" then show ?thesis by (simp add: Summary_arrives inv_summary)
next
  case Render
  assume "inv w" then show ?thesis by (simp add: Render inv_render)
qed

lemma inv_run: "inv w \<Longrightarrow> inv (run apiKey es w)"
  unfolding run_def by (induction es arbitrary: w) (simp_all add: inv_step)

section \<open>The interview controller\<close>

lemma inv_reachable: "inv (run apiKey es initial_world)"
  by (rule inv_run) (rule inv_initial)

lemma score_calls_of_append [simp]:
  "score_calls_of (xs @ ys) = score_calls_of xs @ score_calls_of ys"
  by (induction xs rule: score_calls_of.induct) auto

lemma render_eq:
  "render w =
     run_if (summary_changed (snap w) (pend w)) summary_effect
       (run_if (evaluation_changed (snap w) (pend w)) evaluation_effect
         (run_if (countdown_changed (snap w) (pend w)) countdown_effect (settle w)))"
  unfolding render_def run_if_def settle_def by (simp only: Let_def)

lemma cleanup_keeps [simp]:
  "snap (recognition_cleanup v) = snap v"
  "pend (recognition_cleanup v) = pend v"
  "isTerminatedRef (recognition_cleanup v) = isTerminatedRef v"
  "evaluationsInFlight (recognition_cleanup v) = evaluationsInFlight v"
  "summariesInFlight (recognition_cleanup v) = summariesInFlight v"
  "startInFlight (recognition_cleanup v) = startInFlight v"
  "recStarted (recognition_cleanup v) = recStarted v"
  "warningOpacity (recognition_cleanup v) = warningOpacity v"
  "score_calls_of (trace (recognition_cleanup v)) = score_calls_of (trace v)"
  "terminate_calls (trace (recognition_cleanup v)) = terminate_calls (trace v)"
  by (simp_all add: recognition_cleanup_def emit_def)

lemma recognition_keeps [simp]:
  "snap (recognition_effect v) = snap v"
  "pend (recognition_effect v) = pend v"
  "isTerminatedRef (recognition_effect v) = isTerminatedRef v"
  "evaluationsInFlight (recognition_effect v) = evaluationsInFlight v"
  "summariesInFlight (recognition_effect v) = summariesInFlight v"
  "startInFlight (recognition_effect v) = startInFlight v"
  "recStarted (recognition_effect v) = recStarted v"
  "warningOpacity (recognition_effect v) = warningOpacity v"
  "trace (recognition_effect v) = trace v"
  by (simp_all add: recognition_effect_def)

lemma setup_keeps [simp]:
  "snap (question_setup v) = snap v"
  "isTerminatedRef (question_setup v) = isTerminatedRef v"
  "evaluationsInFlight (question_setup v) = evaluationsInFlight v"
  "summariesInFlight (question_setup v) = summariesInFlight v"
  "startInFlight (question_setup v) = startInFlight v"
  "recStarted (question_setup v) = recStarted v"
  "warningOpacity (question_setup v) = warningOpacity v"
  "trace (question_setup v) = trace v"
  "pend (question_setup v) =
     (if interviewState (snap v) = InProgress
         \<and> currentQuestionIndex (snap v) < length (questions (snap v))
      then (pend v)\<lparr>interviewPhase := Thinking, timer := 10, transcribedText := [],
                     isAdvancing := False, recognitionError := None\<rparr>
      else pend v)"
  by (simp_all add: question_setup_def queue_def)

lemma run_if_keeps: "(\<And>v. F (f v) = F v) \<Longrightarrow> F (run_if c f w) = F w"
  by (simp add: run_if_def)

lemma settle_fields:
  "snap (settle w) = pend w"
  "isTerminatedRef (settle w) = isTerminatedRef w"
  "evaluationsInFlight (settle w) = evaluationsInFlight w"
  "summariesInFlight (settle w) = summariesInFlight w"
  "startInFlight (settle w) = startInFlight w"
  "recStarted (settle w) = recStarted w"
  "warningOpacity (settle w) = warningOpacity w"
  "score_calls_of (trace (settle w)) = score_calls_of (trace w)"
  "terminate_calls (trace (settle w)) = terminate_calls (trace w)"
  unfolding settle_def
  by (simp_all add: run_if_keeps[where F = snap] run_if_keeps[where F = isTerminatedRef]
        run_if_keeps[where F = evaluationsInFlight] run_if_keeps[where F = summariesInFlight]
        run_if_keeps[where F = startInFlight] run_if_keeps[where F = recStarted]
        run_if_keeps[where F = warningOpacity]
        run_if_keeps[where F = "\<lambda>v. score_calls_of (trace v)"]
        run_if_keeps[where F = "\<lambda>v. terminate_calls (trace v)"])

lemma settle_pend:
  "pend (settle w) =
     (if setup_changed (snap w) (pend w) \<and> interviewState (pend w) = InProgress
         \<and> currentQuestionIndex (pend w) < length (questions (pend w))
      then (pend w)\<lparr>interviewPhase := Thinking, timer := 10, transcribedText := [],
                     isAdvancing := False, recognitionError := None\<rparr>
      else pend w)"
proof -
  let ?v = "run_if (countdown_changed (snap w) (pend w)) (\<lambda>v. v\<lparr>countdown := False\<rparr>)
           (run_if (advance_changed (snap w) (pend w)) recognition_cleanup
             (w\<lparr>snap := pend w\<rparr>))"
  have v: "snap ?v = pend w" "pend ?v = pend w"
    by (simp_all add: run_if_keeps[where F = snap] run_if_keeps[where F = pend])
  have "pend (settle w) = pend (run_if (setup_changed (snap w) (pend w)) question_setup ?v)"
    unfolding settle_def by (simp add: run_if_keeps[where F = pend])
  then show ?thesis by (simp add: run_if_def v)
qed

lemma snap_advance [simp]: "snap (handleAdvanceAfterRecording w) = snap w"
  by (simp add: handleAdvanceAfterRecording_def queue_def emit_def Let_def)

lemma snap_effects [simp]:
  "snap (summary_effect w) = snap w"
  "snap (evaluation_effect w) = snap w"
  "snap (countdown_effect w) = snap w"
  by (simp_all add: summary_effect_def evaluation_effect_def countdown_effect_def
        queue_def emit_def)

lemma snap_render: "snap (render w) = pend w"
  by (simp add: render_eq run_if_def settle_fields)

lemma marker_nonempty: "str_includes (toLowerCase q) ''could not'' \<Longrightarrow> q \<noteq> []"
  by (cases q) (auto simp: toLowerCase_def)

lemma inv_upload:
  "inv w \<Longrightarrow> interviewState (snap w) = Upload \<Longrightarrow>
   interviewState (pend w) = Upload \<and> questions (pend w) = [] \<and> allAnswers (pend w) = []"
  unfolding inv_def Let_def by auto

text \<open>
  C3. A start request with a selected document, in any state the page reaches in its
  upload view: if the generated list is non-empty and its first element does not
  contain the marker (\<^verbatim>\<open>could not\<close>, letter case ignored), the queued state is in
  progress, holds the generated questions, and its ledger is one empty string per
  question. Otherwise the queued state is the upload view again, with an error message
  (the first element, or a fixed text for an empty list), and with no question and no
  ledger slot. So it is when reading the document fails.
\<close>

theorem start_request_outcome:
  assumes "w = run apiKey es initial_world"
    and "interviewState (snap w) = Upload" and "resumeFile (snap w) = Some file"
  shows "let gq = generateQuestionsFromResume apiKey reply fileData;
             w' = handleStartInterview apiKey (Some fileData) reply w
         in (gq \<noteq> [] \<and> \<not> str_includes (toLowerCase (hd gq)) ''could not'' \<longrightarrow>
               interviewState (pend w') = InProgress \<and> questions (pend w') = gq
               \<and> allAnswers (pend w') = replicate (length gq) [])
          \<and> (gq = [] \<or> str_includes (toLowerCase (hd gq)) ''could not'' \<longrightarrow>
               interviewState (pend w') = Upload
               \<and> error (pend w') =
                   Some (if gq = [] then ''AI could not generate questions from this resume.''
                         else hd gq)
               \<and> questions (pend w') = [] \<and> allAnswers (pend w') = [])
          \<and> interviewState (pend (handleStartInterview apiKey None reply w)) = Upload
          \<and> error (pend (handleStartInterview apiKey None reply w))
               = Some ''An unexpected error occurred.''
          \<and> questions (pend (handleStartInterview apiKey None reply w)) = []
          \<and> allAnswers (pend (handleStartInterview apiKey None reply w)) = []"
proof -
  define gq where "gq = generateQuestionsFromResume apiKey reply fileData"
  have up: "interviewState (pend w) = Upload" "questions (pend w) = []" "allAnswers (pend w) = []"
    using inv_upload[OF _ assms(2)] inv_reachable assms(1) by auto
  have ok: "start_succeeded gq \<longleftrightarrow> gq \<noteq> [] \<and> \<not> str_includes (toLowerCase (hd gq)) ''could not''"
    by (cases gq) (auto simp: start_succeeded_def js_get_def)
  have w': "handleStartInterview apiKey (Some fileData) reply w =
        (if start_succeeded gq
         then w\<lparr>pend := (pend w)\<lparr>interviewState := InProgress, questions := gq,
                                 allAnswers := replicate (length gq) []\<rparr>,
                startInFlight := False\<rparr>
         else w\<lparr>pend := (pend w)\<lparr>interviewState := Upload,
                     error := Some (or_else (js_get gq 0)
                                      ''AI could not generate questions from this resume.'')\<rparr>,
                startInFlight := False\<rparr>)"
    using assms(3)
    by (simp add: handleStartInterview_def handleStartInterview_begin_def
          handleStartInterview_resume_def queue_def gq_def Let_def)
  have msg: "or_else (js_get gq 0) ''AI could not generate questions from this resume.''
               = (if gq = [] then ''AI could not generate questions from this resume.'' else hd gq)"
    if "gq = [] \<or> str_includes (toLowerCase (hd gq)) ''could not''"
    using that marker_nonempty[of "hd gq"]
    by (cases gq) (auto simp: or_else_def js_get_def)
  have rej: "handleStartInterview apiKey None reply w =
        w\<lparr>pend := (pend w)\<lparr>interviewState := Upload,
                    error := Some ''An unexpected error occurred.''\<rparr>,
          startInFlight := False\<rparr>"
    using assms(3)
    by (simp add: handleStartInterview_def handleStartInterview_begin_def
          handleStartInterview_resume_def queue_def Let_def)
  show ?thesis
    unfolding Let_def gq_def[symmetric] w' rej using ok up msg by auto
qed

theorem start_request_outcome_witness:
  "let ok = handleStartInterview True (Some resume_data) (Parsed_array three_questions) upload_world;
       ko = handleStartInterview True (Some resume_data) (Threw ''503'') upload_world
   in interviewState (snap upload_world) = Upload
      \<and> resumeFile (snap upload_world) = Some resume_pdf
      \<and> interviewState (pend ok) = InProgress \<and> questions (pend ok) = three_questions
      \<and> allAnswers (pend ok) = replicate (length three_questions) []
      \<and> interviewState (pend ko) = Upload
      \<and> error (pend ko) = Some ''Could not generate questions due to an API error. Please try again later.''
      \<and> questions (pend ko) = [] \<and> allAnswers (pend ko) = []"
proof -
  have h1: "interviewState (snap upload_world) = Upload" by code_simp
  have h2: "resumeFile (snap upload_world) = Some resume_pdf" by code_simp
  have g1: "generateQuestionsFromResume True (Parsed_array three_questions) resume_data
              = three_questions"
    by (simp add: generateQuestionsFromResume_def getAi_def)
  have g2: "generateQuestionsFromResume True (Threw ''503'') resume_data
              = [''Could not generate questions due to an API error. Please try again later.'']"
    by code_simp
  have m1: "three_questions \<noteq> [] \<and> \<not> str_includes (toLowerCase (hd three_questions)) ''could not''"
    by code_simp
  have m2: "str_includes (toLowerCase (hd [''Could not generate questions due to an API error. Please try again later.''])) ''could not''"
    by code_simp
  note ok = start_request_outcome [where reply = "Parsed_array three_questions"
      and fileData = resume_data, OF upload_world_def h1 h2, unfolded Let_def g1]
  note ko = start_request_outcome [where reply = "Threw ''503''"
      and fileData = resume_data, OF upload_world_def h1 h2, unfolded Let_def g2]
  have a: "interviewState (pend (handleStartInterview True (Some resume_data) (Parsed_array three_questions) upload_world)) = InProgress
      \<and> questions (pend (handleStartInterview True (Some resume_data) (Parsed_array three_questions) upload_world)) = three_questions
      \<and> allAnswers (pend (handleStartInterview True (Some resume_data) (Parsed_array three_questions) upload_world)) = replicate (length three_questions) []"
    using ok m1 by blast
  have b: "interviewState (pend (handleStartInterview True (Some resume_data) (Threw ''503'') upload_world)) = Upload
      \<and> error (pend (handleStartInterview True (Some resume_data) (Threw ''503'') upload_world)) = Some ''Could not generate questions due to an API error. Please try again later.''
      \<and> questions (pend (handleStartInterview True (Some resume_data) (Threw ''503'') upload_world)) = []
      \<and> allAnswers (pend (handleStartInterview True (Some resume_data) (Threw ''503'') upload_world)) = []"
    using ko m2 by simp
  show ?thesis unfolding Let_def using h1 h2 a b by blast
qed

lemma committed_answer_eq:
  "committed_answer answers i =
     (if i < length answers \<and> answers ! i \<noteq> [] then answers ! i else ''[No answer recorded]'')"
  by (simp add: committed_answer_def or_else_def js_get_def)

lemma score_calls_of_score_calls:
  "score_calls_of (score_calls qs answers) =
     map (\<lambda>(i, q). (q, committed_answer answers i)) (enumerate 0 qs)"
proof -
  have "score_calls_of (map (\<lambda>(i, q). Score_call q (committed_answer answers i)) xs)
        = map (\<lambda>(i, q). (q, committed_answer answers i)) xs" for xs
    by (induction xs) auto
  then show ?thesis by (simp add: score_calls_def)
qed

lemma render_into_evaluating:
  assumes "interviewState (snap w) = InProgress" and "interviewState (pend w) = Evaluating"
  shows "evaluationsInFlight (render w)
           = evaluationsInFlight w @ [(questions (pend w), allAnswers (pend w))]"
    and "score_calls_of (trace (render w))
           = score_calls_of (trace w) @ score_calls_of (score_calls (questions (pend w)) (allAnswers (pend w)))"
    and "pend (render w) = pend w"
proof -
  have c: "countdown_effect (settle w) = settle w"
    using assms by (simp add: countdown_effect_def settle_fields)
  have e: "evaluation_changed (snap w) (pend w)"
    using assms by (simp add: evaluation_changed_def)
  have r: "render w = evaluation_effect (settle w)"
    using assms by (simp add: render_eq run_if_def c e summary_effect_def settle_fields)
  show "evaluationsInFlight (render w)
           = evaluationsInFlight w @ [(questions (pend w), allAnswers (pend w))]"
    and "score_calls_of (trace (render w))
           = score_calls_of (trace w) @ score_calls_of (score_calls (questions (pend w)) (allAnswers (pend w)))"
    and "pend (render w) = pend w"
    using assms by (simp_all add: r evaluation_effect_def settle_fields settle_pend)
qed

lemma length_evaluatedResults [simp]:
  "length (evaluatedResults apiKey replies qs answers) = length qs"
  by (simp add: evaluatedResults_def)

lemma finalResults_nth:
  assumes "i < length qs"
  shows "finalResults apiKey replies qs answers ! i =
           spread (qs ! i) (committed_answer answers i)
             (Some (evaluateAnswer apiKey (fst (replies i)) (snd (replies i))
                      (qs ! i) (committed_answer answers i)))"
  using assms
  by (simp add: finalResults_def evaluatedResults_def js_get_def nth_enumerate_eq)

lemma evaluateAnswer_failed:
  "apiKey \<Longrightarrow> eval_failed reply \<Longrightarrow> evaluateAnswer apiKey rnd reply q a = evaluation_fallback"
  by (auto simp: evaluateAnswer_def getAi_def eval_failed_def split: eval_reply.splits option.splits)

lemma evaluateAnswer_accepted:
  "apiKey \<Longrightarrow>
   evaluateAnswer apiKey rnd (Eval_parsed (Some f) (Some sc) qk ak) q a
     = \<lparr>feedback = f, score = sc, question_key = qk, answer_key = ak\<rparr>"
  by (simp add: evaluateAnswer_def getAi_def)

lemma evaluateAnswer_demo:
  "\<not> apiKey \<Longrightarrow> question_key (evaluateAnswer apiKey rnd reply q a) = None
                 \<and> answer_key (evaluateAnswer apiKey rnd reply q a) = None"
  by (simp add: evaluateAnswer_def)

text \<open>
  C4. When the last advance has queued the evaluation, the next render issues one
  scoring call per question, in question order, with the committed answer or the
  placeholder for an empty one. When the replies arrive, the queued state is
  summarizing and holds one result per question, in question order. The result of a
  question whose call failed (it threw, or its reply has no string feedback or no
  numeric score) is that question, the answer sent, the fixed fallback feedback and
  score 0, whatever the other calls met. The result of a question whose reply was
  accepted has the reply's feedback and score, and the question and the answer sent
  unless the reply itself carries a \<^verbatim>\<open>question\<close> or an \<^verbatim>\<open>answer\<close> key, which then takes
  their place. In demo mode every result has its question and the answer sent.
\<close>

theorem batch_evaluation:
  assumes "w = run apiKey es initial_world"
    and "interviewState (snap w) = InProgress" and "interviewState (pend w) = Evaluating"
  shows "let qs = questions (pend w); answers = allAnswers (pend w);
             sent = (\<lambda>i. if answers ! i \<noteq> [] then answers ! i else ''[No answer recorded]'');
             w1 = render w; w2 = scores_arrive apiKey replies w1
         in score_calls_of (trace w1) = score_calls_of (trace w) @
              map (\<lambda>i. (qs ! i, sent i)) [0..<length qs]
          \<and> length answers = length qs
          \<and> interviewState (pend w2) = Summarizing
          \<and> length (interviewResults (pend w2)) = length qs
          \<and> (\<forall>i < length qs.
                (apiKey \<and> eval_failed (snd (replies i)) \<longrightarrow>
                   interviewResults (pend w2) ! i
                     = \<lparr>rQuestion = qs ! i, rAnswer = sent i,
                        rFeedback = ''An error occurred while evaluating the answer. Please try again.'',
                        rScore = 0\<rparr>)
                \<and> (\<forall>f sc qk ak.
                      apiKey \<and> snd (replies i) = Eval_parsed (Some f) (Some sc) qk ak \<longrightarrow>
                        interviewResults (pend w2) ! i
                          = \<lparr>rQuestion = (case qk of None \<Rightarrow> qs ! i | Some q' \<Rightarrow> q'),
                             rAnswer = (case ak of None \<Rightarrow> sent i | Some a' \<Rightarrow> a'),
                             rFeedback = f, rScore = sc\<rparr>)
                \<and> (\<not> apiKey \<longrightarrow>
                      rQuestion (interviewResults (pend w2) ! i) = qs ! i
                      \<and> rAnswer (interviewResults (pend w2) ! i) = sent i))"
proof -
  define qs where "qs = questions (pend w)"
  define answers where "answers = allAnswers (pend w)"
  define sent where
    "sent = (\<lambda>i. if answers ! i \<noteq> [] then answers ! i else ''[No answer recorded]'')"
  have i: "inv w" using assms(1) inv_reachable by simp
  have len: "length answers = length qs"
    using i by (simp add: inv_def Let_def qs_def answers_def)
  have none: "evaluationsInFlight w = []"
    using i assms(2) by (simp add: inv_def Let_def)
  note r = render_into_evaluating[OF assms(2,3)]
  have calls: "score_calls_of (trace (render w)) = score_calls_of (trace w) @
              map (\<lambda>i. (qs ! i, sent i)) [0..<length qs]"
  proof -
    have "map (\<lambda>(i, q). (q, committed_answer answers i)) (enumerate 0 qs)
          = map (\<lambda>i. (qs ! i, sent i)) [0..<length qs]"
      using len
      by (intro nth_equalityI) (simp_all add: nth_enumerate_eq committed_answer_eq sent_def)
    then show ?thesis
      by (simp add: r(2) score_calls_of_score_calls qs_def[symmetric] answers_def[symmetric])
  qed
  have w2: "scores_arrive apiKey replies (render w) =
     (render w)\<lparr>evaluationsInFlight := [],
       pend := (pend w)\<lparr>interviewResults := finalResults apiKey replies qs answers,
                         interviewState := Summarizing\<rparr>\<rparr>"
    using scores_arrive_batch[of "render w" qs answers "[]" apiKey replies]
    by (simp add: r none qs_def answers_def)
  have ca: "committed_answer answers i = sent i" if "i < length qs" for i
    using that len by (simp add: committed_answer_eq sent_def)
  have failed: "finalResults apiKey replies qs answers ! i
                  = \<lparr>rQuestion = qs ! i, rAnswer = sent i,
                     rFeedback = ''An error occurred while evaluating the answer. Please try again.'',
                     rScore = 0\<rparr>"
    if "i < length qs" and "apiKey" and "eval_failed (snd (replies i))" for i
    using that
    by (simp add: finalResults_nth ca evaluateAnswer_failed evaluation_fallback_def spread_def)
  have accepted: "finalResults apiKey replies qs answers ! i
                    = \<lparr>rQuestion = (case qk of None \<Rightarrow> qs ! i | Some q' \<Rightarrow> q'),
                       rAnswer = (case ak of None \<Rightarrow> sent i | Some a' \<Rightarrow> a'),
                       rFeedback = f, rScore = sc\<rparr>"
    if "i < length qs" and "apiKey" and "snd (replies i) = Eval_parsed (Some f) (Some sc) qk ak"
    for i f sc qk ak
    using that by (simp add: finalResults_nth ca evaluateAnswer_accepted spread_def)
  have demo: "rQuestion (finalResults apiKey replies qs answers ! i) = qs ! i
              \<and> rAnswer (finalResults apiKey replies qs answers ! i) = sent i"
    if "i < length qs" and "\<not> apiKey" for i
    using that by (simp add: finalResults_nth ca evaluateAnswer_demo spread_def)
  have lres: "length (finalResults apiKey replies qs answers) = length qs"
    by (simp add: finalResults_def)
  have p2: "pend (scores_arrive apiKey replies (render w))
              = (pend w)\<lparr>interviewResults := finalResults apiKey replies qs answers,
                          interviewState := Summarizing\<rparr>"
    by (simp add: w2)
  have st: "interviewState (pend (scores_arrive apiKey replies (render w))) = Summarizing"
    and ir: "interviewResults (pend (scores_arrive apiKey replies (render w)))
               = finalResults apiKey replies qs answers"
    by (simp_all add: p2)
  show ?thesis
    using calls len failed accepted demo lres
    unfolding Let_def qs_def[symmetric] answers_def[symmetric] st ir sent_def
    by blast
qed

theorem batch_evaluation_witness:
  "let w2 = scores_arrive True mixed_replies (render answered_world)
   in interviewState (snap answered_world) = InProgress
      \<and> interviewState (pend answered_world) = Evaluating
      \<and> questions (pend answered_world) = [''Q1'', ''Q2'', ''Q3'']
      \<and> allAnswers (pend answered_world) = [''first answer'', [], ''third answer'']
      \<and> score_calls_of (trace (render answered_world))
           = [(''Q1'', ''first answer''), (''Q2'', ''[No answer recorded]''),
              (''Q3'', ''third answer'')]
      \<and> interviewState (pend w2) = Summarizing
      \<and> length (interviewResults (pend w2)) = 3
      \<and> interviewResults (pend w2) ! 0
           = \<lparr>rQuestion = ''Q1'', rAnswer = ''first answer'', rFeedback = ''Good'', rScore = 4\<rparr>
      \<and> interviewResults (pend w2) ! 1
           = \<lparr>rQuestion = ''Q2'', rAnswer = ''[No answer recorded]'',
              rFeedback = ''An error occurred while evaluating the answer. Please try again.'',
              rScore = 0\<rparr>
      \<and> interviewResults (pend w2) ! 2
           = \<lparr>rQuestion = ''Another question'', rAnswer = ''third answer'',
              rFeedback = ''Clear'', rScore = 5\<rparr>
      \<and> interviewState (snap demo_answered_world) = InProgress
      \<and> interviewState (pend demo_answered_world) = Evaluating
      \<and> length (interviewResults
                   (pend (scores_arrive False mixed_replies (render demo_answered_world)))) = 10
      \<and> rQuestion (interviewResults
                      (pend (scores_arrive False mixed_replies (render demo_answered_world))) ! 9)
           = ''Explain the purpose and outcome of the certification you received in Cloud Computing.''
      \<and> rAnswer (interviewResults
                    (pend (scores_arrive False mixed_replies (render demo_answered_world))) ! 9)
           = ''[No answer recorded]''"
proof -
  have d: "let w = demo_answered_world
           in interviewState (snap w) = InProgress \<and> interviewState (pend w) = Evaluating
              \<and> length (questions (pend w)) = 10
              \<and> questions (pend w) ! 9
                   = ''Explain the purpose and outcome of the certification you received in Cloud Computing.''
              \<and> allAnswers (pend w) ! 9 = []"
    by code_simp
  have d1: "interviewState (snap demo_answered_world) = InProgress"
    and d2: "interviewState (pend demo_answered_world) = Evaluating"
    and d3: "length (questions (pend demo_answered_world)) = 10"
    and d4: "questions (pend demo_answered_world) ! 9
              = ''Explain the purpose and outcome of the certification you received in Cloud Computing.''"
    and d5: "allAnswers (pend demo_answered_world) ! 9 = []"
    using d unfolding Let_def by blast+
  note td = batch_evaluation [where replies = mixed_replies,
      OF demo_answered_world_def d1 d2, unfolded Let_def d3]
  have dl: "length (interviewResults
                      (pend (scores_arrive False mixed_replies (render demo_answered_world)))) = 10"
    using td by blast
  have "rQuestion (interviewResults
                     (pend (scores_arrive False mixed_replies (render demo_answered_world))) ! 9)
          = questions (pend demo_answered_world) ! 9
        \<and> rAnswer (interviewResults
                      (pend (scores_arrive False mixed_replies (render demo_answered_world))) ! 9)
          = (if allAnswers (pend demo_answered_world) ! 9 \<noteq> []
             then allAnswers (pend demo_answered_world) ! 9 else ''[No answer recorded]'')"
    using td by simp
  then have dq: "rQuestion (interviewResults
                      (pend (scores_arrive False mixed_replies (render demo_answered_world))) ! 9)
           = ''Explain the purpose and outcome of the certification you received in Cloud Computing.''"
    and da: "rAnswer (interviewResults
                    (pend (scores_arrive False mixed_replies (render demo_answered_world))) ! 9)
           = ''[No answer recorded]''"
    using d4 d5 by simp_all
  have h1: "interviewState (snap answered_world) = InProgress" by code_simp
  have h2: "interviewState (pend answered_world) = Evaluating" by code_simp
  have q: "questions (pend answered_world) = [''Q1'', ''Q2'', ''Q3'']" by code_simp
  have a: "allAnswers (pend answered_world) = [''first answer'', [], ''third answer'']"
    by code_simp
  have c: "score_calls_of (trace answered_world) = []" by code_simp
  have r0: "snd (mixed_replies 0) = Eval_parsed (Some ''Good'') (Some 4) None None"
    and r1: "eval_failed (snd (mixed_replies 1))"
    and r2: "snd (mixed_replies 2)
               = Eval_parsed (Some ''Clear'') (Some 5) (Some ''Another question'') None"
    by (simp_all add: mixed_replies_def eval_failed_def)
  have u: "[0..<3] = [0, 1, 2]" by (simp add: upt_rec)
  note t = batch_evaluation [where replies = mixed_replies,
      OF answered_world_def h1 h2, unfolded Let_def q a c]
  have calls: "score_calls_of (trace (render answered_world))
           = [(''Q1'', ''first answer''), (''Q2'', ''[No answer recorded]''),
              (''Q3'', ''third answer'')]"
    using t u by simp
  have st: "interviewState (pend (scores_arrive True mixed_replies (render answered_world)))
              = Summarizing"
    and ln: "length (interviewResults (pend (scores_arrive True mixed_replies (render answered_world)))) = 3"
    using t by simp_all
  have each: "\<forall>i < 3.
      (eval_failed (snd (mixed_replies i)) \<longrightarrow>
         interviewResults (pend (scores_arrive True mixed_replies (render answered_world))) ! i
           = \<lparr>rQuestion = [''Q1'', ''Q2'', ''Q3''] ! i,
              rAnswer = (if [''first answer'', [], ''third answer''] ! i \<noteq> []
                         then [''first answer'', [], ''third answer''] ! i
                         else ''[No answer recorded]''),
              rFeedback = ''An error occurred while evaluating the answer. Please try again.'',
              rScore = 0\<rparr>)
      \<and> (\<forall>f sc qk ak. snd (mixed_replies i) = Eval_parsed (Some f) (Some sc) qk ak \<longrightarrow>
            interviewResults (pend (scores_arrive True mixed_replies (render answered_world))) ! i
              = \<lparr>rQuestion = (case qk of None \<Rightarrow> [''Q1'', ''Q2'', ''Q3''] ! i | Some q' \<Rightarrow> q'),
                 rAnswer = (case ak of
                              None \<Rightarrow> (if [''first answer'', [], ''third answer''] ! i \<noteq> []
                                        then [''first answer'', [], ''third answer''] ! i
                                        else ''[No answer recorded]'')
                            | Some a' \<Rightarrow> a'),
                 rFeedback = f, rScore = sc\<rparr>)"
    using t by simp
  have e0: "interviewResults (pend (scores_arrive True mixed_replies (render answered_world))) ! 0
           = \<lparr>rQuestion = ''Q1'', rAnswer = ''first answer'', rFeedback = ''Good'', rScore = 4\<rparr>"
    using each[rule_format, of 0, THEN conjunct2, rule_format, OF _ r0] by simp
  have e1: "interviewResults (pend (scores_arrive True mixed_replies (render answered_world))) ! 1
           = \<lparr>rQuestion = ''Q2'', rAnswer = ''[No answer recorded]'',
              rFeedback = ''An error occurred while evaluating the answer. Please try again.'',
              rScore = 0\<rparr>"
    using each[rule_format, of 1, THEN conjunct1, rule_format, OF _ r1] by simp
  have e2: "interviewResults (pend (scores_arrive True mixed_replies (render answered_world))) ! 2
           = \<lparr>rQuestion = ''Another question'', rAnswer = ''third answer'',
              rFeedback = ''Clear'', rScore = 5\<rparr>"
    using each[rule_format, of 2, THEN conjunct2, rule_format, OF _ r2] by simp
  show ?thesis unfolding Let_def using h1 h2 q a calls st ln e0 e1 e2 d1 d2 dl dq da by blast
qed

text \<open>
  C5. A transcription error arriving while question \<open>i\<close> is recording, with the
  countdown still above zero: the fixed message of the error code is queued and shown
  by the next render (the permission-denied message for \<^verbatim>\<open>not-allowed\<close>); the advance
  runs at once, stops the capture and writes the trimmed transcript buffer, possibly
  empty, to slot \<open>i\<close>; the index moves on, or the stage becomes evaluating on the last
  question; the session is not terminated.
\<close>

theorem transcription_error_advances:
  assumes "w = run apiKey es initial_world"
    and "interviewState (snap w) = InProgress" and "interviewPhase (snap w) = Recording"
    and "0 < timer (snap w)" and "\<not> isAdvancing (snap w)" and "\<not> isTerminatedRef w"
  shows "let w' = onerror code w; i = currentQuestionIndex (snap w);
             finalAnswer = trim (latestTranscript w)
         in recognitionError (pend w') = Some (error_message code)
          \<and> recognitionError (snap (render w')) = Some (error_message code)
          \<and> error_message ''not-allowed''
               = ''Microphone access was denied. Please check your browser permissions.''
          \<and> i < length (allAnswers (pend w))
          \<and> allAnswers (pend w') = (allAnswers (pend w))[i := finalAnswer]
          \<and> trace w' = trace w @ [Rec_stop, Set_answer i finalAnswer]
          \<and> (if int i < int (length (questions (snap w))) - 1
              then currentQuestionIndex (pend w') = currentQuestionIndex (pend w) + 1
                   \<and> interviewState (pend w') = interviewState (pend w)
              else interviewState (pend w') = Evaluating)
          \<and> \<not> isTerminatedRef w' \<and> terminate_calls (trace w') = 0
          \<and> 0 < timer (snap w')
          \<and> (latestTranscript w = [] \<longrightarrow> allAnswers (pend w') ! i = [])"
proof -
  have i: "inv w" using assms(1) inv_reachable by simp
  have rng: "currentQuestionIndex (snap w) < length (allAnswers (pend w))"
    using inv_in_range[OF i assms(5)] assms(2) by simp
  have tc: "terminate_calls (trace w) = 0"
    using i assms(6) by (simp add: inv_def Let_def)
  let ?w = "queue (\<lambda>p. p\<lparr>recognitionError := Some (error_message code)\<rparr>) w"
  have u: "\<not> isAdvancing (snap ?w)" "\<not> isTerminatedRef ?w"
    using assms by (simp_all add: queue_def)
  have e: "onerror code w = handleAdvanceAfterRecording ?w" by (simp add: onerror_def)
  have m: "error_message ''not-allowed''
               = ''Microphone access was denied. Please check your browser permissions.''"
    by (simp add: error_message_def)
  have t: "trim [] = []" by (simp add: trim_def)
  show ?thesis
    unfolding Let_def e advance_unlocked[OF u] snap_render
    using rng tc assms m t by (simp add: queue_def js_set_def)
qed

theorem transcription_error_advances_witness:
  "let w' = onerror ''not-allowed'' recording_world
   in interviewState (snap recording_world) = InProgress
      \<and> interviewPhase (snap recording_world) = Recording
      \<and> 0 < timer (snap recording_world)
      \<and> \<not> isAdvancing (snap recording_world) \<and> \<not> isTerminatedRef recording_world
      \<and> recognitionError (pend w')
           = Some ''Microphone access was denied. Please check your browser permissions.''
      \<and> allAnswers (pend w')
           = (allAnswers (pend recording_world))
               [currentQuestionIndex (snap recording_world) := trim (latestTranscript recording_world)]
      \<and> \<not> isTerminatedRef w'"
proof -
  have h1: "interviewState (snap recording_world) = InProgress" by code_simp
  have h2: "interviewPhase (snap recording_world) = Recording" by code_simp
  have h3: "0 < timer (snap recording_world)" by code_simp
  have h4: "\<not> isAdvancing (snap recording_world)" by code_simp
  have h5: "\<not> isTerminatedRef recording_world" by code_simp
  note t = transcription_error_advances [where code = "''not-allowed''",
      OF recording_world_def h1 h2 h3 h4 h5, unfolded Let_def]
  show ?thesis unfolding Let_def using t h1 h2 h3 h4 h5 by simp
qed

section \<open>The proctoring policy\<close>

lemma inv_in_progress:
  assumes "inv w" and "interviewState (snap w) = InProgress"
  shows "evaluationsInFlight w = []" and "summariesInFlight w = 0" and "\<not> startInFlight w"
    and "questions (pend w) = questions (snap w)"
    and "terminate_calls (trace w) = (if isTerminatedRef w then 1 else 0)"
  using assms unfolding inv_def Let_def by auto

lemma frozen_render:
  assumes "frozen ph i w"
  shows "frozen ph i (render w)"
proof -
  have i: "inv w" and t: "isTerminatedRef w"
    and s: "interviewState (snap w) = InProgress" "interviewState (pend w) = InProgress"
    and rest: "interviewPhase (snap w) = ph" "interviewPhase (pend w) = ph"
      "currentQuestionIndex (snap w) = i" "currentQuestionIndex (pend w) = i"
    using assms by (simp_all add: frozen_def)
  have q: "questions (pend w) = questions (snap w)" using inv_in_progress(4)[OF i s(1)] .
  have ns: "\<not> setup_changed (snap w) (pend w)"
    using s rest q by (simp add: setup_changed_def)
  have p: "pend (settle w) = pend w" using ns by (simp add: settle_pend)
  have c: "countdown_effect (settle w) = settle w"
    using t by (simp add: countdown_effect_def settle_fields)
  have e: "evaluation_effect (settle w) = settle w"
    using s by (simp add: evaluation_effect_def settle_fields)
  have m: "summary_effect (settle w) = settle w"
    using s by (simp add: summary_effect_def settle_fields)
  have r: "render w = settle w"
    by (simp add: render_eq run_if_def c e m)
  have "inv (render w)" using i by (rule inv_render)
  then show ?thesis
    using t s rest by (simp add: frozen_def r p settle_fields)
qed

lemma frozen_step:
  assumes "frozen ph i w"
  shows "frozen ph i (step apiKey e w)"
proof -
  have i: "inv w" and t: "isTerminatedRef w"
    and s: "interviewState (snap w) = InProgress"
    using assms by (simp_all add: frozen_def)
  note f = inv_in_progress[OF i s]
  have i': "inv (step apiKey e w)" using i by (rule inv_step)
  show ?thesis
  proof (cases e)
    case Face_absent
    then show ?thesis using assms t by (simp add: handleFaceOutOfFrame_def)
  next
    case Warning_timeout
    then show ?thesis using assms i' by (simp add: frozen_def)
  next
    case (File_change chosen)
    then show ?thesis using assms s by simp
  next
    case Start_click
    then show ?thesis using assms s by simp
  next
    case (Questions_arrive fileRead reply)
    then show ?thesis using assms f by simp
  next
    case Timer_fire
    then show ?thesis using assms i' by (auto simp: frozen_def queue_def)
  next
    case (Rec_result ev)
    then show ?thesis using assms i' by (auto simp: frozen_def onresult_def queue_def Let_def)
  next
    case (Rec_error code)
    then show ?thesis using assms i'
      by (auto simp: frozen_def onerror_def queue_def handleAdvanceAfterRecording_def)
  next
    case (Scores_arrive replies)
    then show ?thesis using assms f by (simp add: scores_arrive_def)
  next
    case (Summary_arrives reply)
    then show ?thesis using assms f by (simp add: summary_arrives_def)
  next
    case Render
    then show ?thesis using assms by (simp add: frozen_render)
  qed
qed

lemma frozen_run: "frozen ph i w \<Longrightarrow> frozen ph i (run apiKey es w)"
  unfolding run_def by (induction es arbitrary: w) (simp_all add: frozen_step)

lemma held_step:
  assumes "held s ph i w" and "e \<noteq> Render"
  shows "held s ph i (step apiKey e w)"
proof -
  have i: "inv w" and t: "isTerminatedRef w"
    and s: "interviewState (snap w) = InProgress"
    using assms by (auto simp: held_def)
  note f = inv_in_progress[OF i s]
  have i': "inv (step apiKey e w)" using i by (rule inv_step)
  show ?thesis
  proof (cases e)
    case Face_absent
    then show ?thesis using assms t by (simp add: handleFaceOutOfFrame_def)
  next
    case Warning_timeout
    then show ?thesis using assms i' by (simp add: held_def)
  next
    case (File_change chosen)
    then show ?thesis using assms s by simp
  next
    case Start_click
    then show ?thesis using assms s by simp
  next
    case (Questions_arrive fileRead reply)
    then show ?thesis using assms f by simp
  next
    case Timer_fire
    then show ?thesis using assms i' by (auto simp: held_def queue_def)
  next
    case (Rec_result ev)
    then show ?thesis using assms i' by (auto simp: held_def onresult_def queue_def Let_def)
  next
    case (Rec_error code)
    then show ?thesis using assms i'
      by (auto simp: held_def onerror_def queue_def handleAdvanceAfterRecording_def)
  next
    case (Scores_arrive replies)
    then show ?thesis using assms f by (simp add: scores_arrive_def)
  next
    case (Summary_arrives reply)
    then show ?thesis using assms f by (simp add: summary_arrives_def)
  next
    case Render
    then show ?thesis using assms by simp
  qed
qed

lemma held_run: "held s ph i w \<Longrightarrow> Render \<notin> set es \<Longrightarrow> held s ph i (run apiKey es w)"
  unfolding run_def by (induction es arbitrary: w) (auto simp: held_step)

text \<open>
  What the face-absence handler and the flag do achieve. In any state the page reaches
  while the interview is in progress and not terminated: an event with the violation
  count at 0 queues the count 1 and shows the warning, which its timeout hides again;
  the stage, the sub-phase, the index and the trace are as before and the session is
  not terminated; the next render shows the count 1. An event with the rendered count
  above 0 sets the terminated flag and calls the termination callback once. From then
  on no timer expiry and no callback of an adapter or of the gateway queues a change of
  the stage, the sub-phase or the index, and the callback is not called again. If
  nothing was queued for the stage, the sub-phase or the index when the flag was set,
  the renders in between change nothing either.
\<close>

lemma face_absence_in_a_settled_session:
  assumes "w = run apiKey es initial_world"
    and "interviewState (snap w) = InProgress" and "\<not> isTerminatedRef w"
  shows "(faceDetectionWarnings (snap w) = 0 \<longrightarrow>
            (let w' = step apiKey Face_absent w
             in pend w' = (pend w)\<lparr>faceDetectionWarnings := 1\<rparr> \<and> snap w' = snap w
                \<and> warningOpacity w' \<and> \<not> warningOpacity (step apiKey Warning_timeout w')
                \<and> \<not> isTerminatedRef w' \<and> trace w' = trace w
                \<and> terminate_calls (trace w') = 0
                \<and> faceDetectionWarnings (snap (render w')) = 1))
       \<and> (faceDetectionWarnings (snap w) \<noteq> 0 \<longrightarrow>
            (let w' = step apiKey Face_absent w
             in isTerminatedRef w' \<and> snap w' = snap w \<and> pend w' = pend w
                \<and> trace w' = trace w @ [Terminate ''face_detection''
                       ''Interview terminated due to repeated face detection issues.'']
                \<and> terminate_calls (trace w') = 1
                \<and> (interviewState (pend w) = InProgress \<longrightarrow>
                     (\<forall>es'. Render \<notin> set es' \<longrightarrow>
                        (let w'' = run apiKey es' w'
                         in isTerminatedRef w'' \<and> terminate_calls (trace w'') = 1
                            \<and> snap w'' = snap w
                            \<and> interviewState (pend w'') = InProgress
                            \<and> interviewPhase (pend w'') = interviewPhase (pend w)
                            \<and> currentQuestionIndex (pend w'') = currentQuestionIndex (pend w))))
                \<and> (quiet w \<longrightarrow>
                     (\<forall>es'. let w'' = run apiKey es' w'
                            in isTerminatedRef w'' \<and> terminate_calls (trace w'') = 1
                               \<and> interviewState (snap w'') = InProgress
                               \<and> interviewState (pend w'') = InProgress
                               \<and> interviewPhase (snap w'') = interviewPhase (snap w)
                               \<and> interviewPhase (pend w'') = interviewPhase (snap w)
                               \<and> currentQuestionIndex (snap w'') = currentQuestionIndex (snap w)
                               \<and> currentQuestionIndex (pend w'') = currentQuestionIndex (snap w)))))"
proof -
  have i: "inv w" using assms(1) inv_reachable by simp
  have tc: "terminate_calls (trace w) = 0"
    using inv_in_progress(5)[OF i assms(2)] assms(3) by simp
  have first: "pend w' = (pend w)\<lparr>faceDetectionWarnings := 1\<rparr> \<and> snap w' = snap w
                \<and> warningOpacity w' \<and> \<not> warningOpacity (step apiKey Warning_timeout w')
                \<and> \<not> isTerminatedRef w' \<and> trace w' = trace w
                \<and> terminate_calls (trace w') = 0
                \<and> faceDetectionWarnings (snap (render w')) = 1"
    if "faceDetectionWarnings (snap w) = 0" and "w' = step apiKey Face_absent w" for w'
    using that assms(2,3) tc
    by (simp add: handleFaceOutOfFrame_def queue_def snap_render)
  have second: "isTerminatedRef w' \<and> snap w' = snap w \<and> pend w' = pend w
                \<and> trace w' = trace w @ [Terminate ''face_detection''
                       ''Interview terminated due to repeated face detection issues.'']
                \<and> terminate_calls (trace w') = 1"
    if "faceDetectionWarnings (snap w) \<noteq> 0" and "w' = step apiKey Face_absent w" for w'
    using that assms(2,3) tc
    by (simp add: handleFaceOutOfFrame_def emit_def)
  have callbacks: "isTerminatedRef w'' \<and> terminate_calls (trace w'') = 1
                            \<and> snap w'' = snap w
                            \<and> interviewState (pend w'') = InProgress
                            \<and> interviewPhase (pend w'') = interviewPhase (pend w)
                            \<and> currentQuestionIndex (pend w'') = currentQuestionIndex (pend w)"
    if nz: "faceDetectionWarnings (snap w) \<noteq> 0" and w': "w' = step apiKey Face_absent w"
      and p: "interviewState (pend w) = InProgress"
      and nr: "Render \<notin> set es'" and w'': "w'' = run apiKey es' w'" for w' w'' es'
  proof -
    have "inv w'" unfolding w' using i by (rule inv_step)
    then have "held (snap w) (interviewPhase (pend w)) (currentQuestionIndex (pend w)) w'"
      using second[OF nz w'] p assms(2) by (simp add: held_def)
    then have h: "held (snap w) (interviewPhase (pend w)) (currentQuestionIndex (pend w)) w''"
      unfolding w'' using nr by (rule held_run)
    then have "inv w''" "isTerminatedRef w''" "interviewState (snap w'') = InProgress"
      by (simp_all add: held_def)
    then have "terminate_calls (trace w'') = 1" using inv_in_progress(5) by simp
    with h show ?thesis by (simp add: held_def)
  qed
  have after: "isTerminatedRef w'' \<and> terminate_calls (trace w'') = 1
                               \<and> interviewState (snap w'') = InProgress
                               \<and> interviewState (pend w'') = InProgress
                               \<and> interviewPhase (snap w'') = interviewPhase (snap w)
                               \<and> interviewPhase (pend w'') = interviewPhase (snap w)
                               \<and> currentQuestionIndex (snap w'') = currentQuestionIndex (snap w)
                               \<and> currentQuestionIndex (pend w'') = currentQuestionIndex (snap w)"
    if nz: "faceDetectionWarnings (snap w) \<noteq> 0" and w': "w' = step apiKey Face_absent w"
      and q: "quiet w" and w'': "w'' = run apiKey es' w'" for w' w'' es'
  proof -
    have "inv w'" unfolding w' using i by (rule inv_step)
    then have "frozen (interviewPhase (snap w)) (currentQuestionIndex (snap w)) w'"
      using second[OF nz w'] q assms(2) by (simp add: frozen_def quiet_def agree_def)
    then have fr: "frozen (interviewPhase (snap w)) (currentQuestionIndex (snap w)) w''"
      unfolding w'' by (rule frozen_run)
    then have "inv w''" "isTerminatedRef w''" "interviewState (snap w'') = InProgress"
      by (simp_all add: frozen_def)
    then have "terminate_calls (trace w'') = 1" using inv_in_progress(5) by simp
    with fr show ?thesis by (simp add: frozen_def)
  qed
  show ?thesis unfolding Let_def using first second callbacks after by blast
qed

text \<open>
  C2. The terminated flag does not stop what was queued before it was set: the setup
  effect of a question and the evaluation and summary effects never consult it. A
  session of three questions has its violation count at 1; the countdown of the first
  recording runs out and the render's countdown effect queues the advance; the second
  face-absence event arrives before the next render, sets the flag and calls the
  termination callback once; the next two renders show the second question in its
  thinking sub-phase. In a session of one question the same events are followed by the
  scoring call, the summary call and the results view. Moreover the handler reads the
  violation count of the last render: of two face-absence events with no render between
  them the second warns again and does not terminate.
\<close>

theorem termination_keeps_queued_transition:
  "let w = queued_advance_world;
       t = step True Face_absent w;
       z = run True [Render, Render] t;
       u = queued_evaluation_world;
       tu = step True Face_absent u;
       zu = run True [Render, Scores_arrive (\<lambda>i. (0, Eval_threw)), Render,
                      Summary_arrives Summary_threw, Render] tu;
       d = run True [Face_absent, Face_absent] recording_world
   in (interviewState (snap w) = InProgress \<and> \<not> isTerminatedRef w
       \<and> faceDetectionWarnings (snap w) = 1
       \<and> interviewPhase (snap w) = Recording \<and> currentQuestionIndex (snap w) = 0)
      \<and> (isTerminatedRef t \<and> terminate_calls (trace t) = 1
          \<and> interviewPhase (snap t) = Recording \<and> currentQuestionIndex (snap t) = 0)
      \<and> (isTerminatedRef z \<and> terminate_calls (trace z) = 1
          \<and> interviewState (snap z) = InProgress
          \<and> interviewPhase (snap z) = Thinking \<and> currentQuestionIndex (snap z) = 1)
      \<and> (interviewState (snap u) = InProgress \<and> \<not> isTerminatedRef u
          \<and> faceDetectionWarnings (snap u) = 1)
      \<and> (isTerminatedRef tu \<and> terminate_calls (trace tu) = 1
          \<and> interviewState (snap tu) = InProgress)
      \<and> (isTerminatedRef zu \<and> interviewState (snap zu) = Results
          \<and> score_calls_of (trace zu) = [(''Q1'', ''hello world'')])
      \<and> (interviewState (snap recording_world) = InProgress
          \<and> faceDetectionWarnings (snap recording_world) = 0
          \<and> \<not> isTerminatedRef d \<and> terminate_calls (trace d) = 0
          \<and> faceDetectionWarnings (pend d) = 1)"
  by code_simp

theorem termination_keeps_queued_transition_witness:
  "isTerminatedRef (step True Face_absent queued_evaluation_world)
   \<and> interviewState
        (snap (run True [Render, Scores_arrive (\<lambda>i. (0, Eval_threw)), Render,
                         Summary_arrives Summary_threw, Render]
                 (step True Face_absent queued_evaluation_world))) = Results"
  using termination_keeps_queued_transition [unfolded Let_def] by blast

section \<open>The advance lock\<close>

lemma advance_twice_in_one_render:
  assumes "\<not> isAdvancing (snap w)" and "\<not> isTerminatedRef w"
    and "int (currentQuestionIndex (snap w)) < int (length (questions (snap w))) - 1"
  shows "ledger_writes (trace (handleAdvanceAfterRecording (handleAdvanceAfterRecording w)))
           = ledger_writes (trace w)
             @ [(currentQuestionIndex (snap w), trim (latestTranscript w)),
                (currentQuestionIndex (snap w), trim (latestTranscript w))]
       \<and> currentQuestionIndex (pend (handleAdvanceAfterRecording (handleAdvanceAfterRecording w)))
           = currentQuestionIndex (pend w) + 2"
proof -
  have app: "ledger_writes (xs @ ys) = ledger_writes xs @ ledger_writes ys" for xs ys
    by (induction xs rule: ledger_writes.induct) auto
  let ?w1 = "handleAdvanceAfterRecording w"
  have u1: "\<not> isAdvancing (snap ?w1)" "\<not> isTerminatedRef ?w1"
    using assms by (simp_all add: advance_unlocked)
  have s1: "snap ?w1 = snap w" "latestTranscript ?w1 = latestTranscript w"
    using assms by (simp_all add: advance_unlocked)
  show ?thesis
    unfolding advance_unlocked[OF u1] s1
    using assms by (simp add: advance_unlocked app)
qed

text \<open>
  C1. The advance lock is a state value: the advance routine reads it from the closure
  of the last render, and setting it only queues an update. Two invocations before the
  next render both pass the check. In a session of three questions, in the last second
  of the first recording: the timer expires, the render's countdown effect calls the
  advance routine (slot 0 written, index queued from 0 to 1), a transcription error
  arrives before the next render and its handler calls the routine again; slot 0 is
  written a second time and the queued index becomes 2. The next renders show the
  third question; the second was never asked and its slot stays empty.
\<close>

theorem advance_lock_race:
  "let w = run True (to_last_second [''Q1'', ''Q2'', ''Q3'']) initial_world;
       w1 = run True [Timer_fire, Render] w;
       w2 = step True (Rec_error ''network'') w1;
       w3 = run True [Render, Render] w2
   in interviewState (snap w) = InProgress \<and> interviewPhase (snap w) = Recording
      \<and> timer (snap w) = 1 \<and> currentQuestionIndex (snap w) = 0
      \<and> ledger_writes (trace w) = []
      \<and> ledger_writes (trace w1) = [(0, ''hello world'')]
      \<and> currentQuestionIndex (snap w1) = 0 \<and> currentQuestionIndex (pend w1) = 1
      \<and> ledger_writes (trace w2) = [(0, ''hello world''), (0, ''hello world'')]
      \<and> currentQuestionIndex (pend w2) = 2
      \<and> interviewState (snap w3) = InProgress \<and> currentQuestionIndex (snap w3) = 2
      \<and> allAnswers (snap w3) = [''hello world'', [], []]"
  by code_simp

theorem advance_lock_race_witness:
  "currentQuestionIndex
     (pend (step True (Rec_error ''network'')
              (run True [Timer_fire, Render]
                 (run True (to_last_second [''Q1'', ''Q2'', ''Q3'']) initial_world)))) = 2"
  using advance_lock_race [unfolded Let_def] by blast

section \<open>The quiz controller\<close>

lemma Math_round_100: "Math_round 100 = 100"
  by (simp add: Math_round_def) linarith

lemma count_correct_filter:
  "count_correct qs answers i acc =
     acc + int (length (filter (\<lambda>(j, q). js_get answers j = Some (correctAnswer q)) (enumerate i qs)))"
  by (induction qs arbitrary: i acc) (auto simp: eq_commute)

lemma count_correct_card:
  "count_correct qs answers 0 0 =
     int (card {i. i < length qs \<and> js_get answers i = Some (correctAnswer (qs ! i))})"
proof -
  have "{i. i < length (enumerate 0 qs) \<and>
            (case enumerate 0 qs ! i of (j, q) \<Rightarrow> js_get answers j = Some (correctAnswer q))}
        = {i. i < length qs \<and> js_get answers i = Some (correctAnswer (qs ! i))}"
    by (auto simp: nth_enumerate_eq)
  then show ?thesis
    by (simp add: count_correct_filter length_filter_conv_card)
qed

lemma count_correct_all:
  "count_correct qs (map correctAnswer qs) 0 0 = int (length qs)"
proof -
  have "{i. i < length qs \<and> js_get (map correctAnswer qs) i = Some (correctAnswer (qs ! i))}
        = {..<length qs}"
    by (auto simp: js_get_def)
  then show ?thesis by (simp add: count_correct_card)
qed

lemma answer_all_run:
  "mcqState s = McqInProgress \<Longrightarrow> length (userAnswers s) = length (mcqQuestions s) \<Longrightarrow>
   cs \<noteq> [] \<Longrightarrow> mcqIndex s + length cs = length (mcqQuestions s) \<Longrightarrow>
   answer_all cs s =
     s\<lparr>userAnswers := take (mcqIndex s) (userAnswers s) @ cs,
       mcqIndex := length (mcqQuestions s) - 1,
       mcqScore := count_correct (mcqQuestions s) (take (mcqIndex s) (userAnswers s) @ cs) 0 0,
       mcqState := McqSummarizing\<rparr>"
proof (induction cs arbitrary: s)
  case Nil
  then show ?case by simp
next
  case (Cons c cs)
  let ?s1 = "handleNextQuestion (handleSelectAnswer c s)"
  have upd: "js_set (userAnswers s) (mcqIndex s) c =
               take (mcqIndex s) (userAnswers s) @ c # drop (Suc (mcqIndex s)) (userAnswers s)"
    using Cons.prems by (simp add: js_set_def upd_conv_take_nth_drop)
  show ?case
  proof (cases cs)
    case Nil
    then have fin: "Suc (mcqIndex s) = length (mcqQuestions s)" using Cons.prems by simp
    then have "drop (Suc (mcqIndex s)) (userAnswers s) = []" using Cons.prems by simp
    with Nil fin upd show ?thesis
      by (simp add: handleNextQuestion_def handleSelectAnswer_def)
  next
    case (Cons c' cs')
    then have lt: "int (mcqIndex s) < int (length (mcqQuestions s)) - 1"
      using Cons.prems by simp
    then have s1: "?s1 = s\<lparr>userAnswers := js_set (userAnswers s) (mcqIndex s) c,
                            mcqIndex := mcqIndex s + 1\<rparr>"
      by (simp add: handleNextQuestion_def handleSelectAnswer_def)
    have "answer_all cs ?s1 = ?s1\<lparr>userAnswers := take (mcqIndex ?s1) (userAnswers ?s1) @ cs,
       mcqIndex := length (mcqQuestions ?s1) - 1,
       mcqScore := count_correct (mcqQuestions ?s1) (take (mcqIndex ?s1) (userAnswers ?s1) @ cs) 0 0,
       mcqState := McqSummarizing\<rparr>"
      using Cons.prems Cons by (intro Cons.IH) (simp_all add: s1 js_set_def)
    moreover have "take (mcqIndex ?s1) (userAnswers ?s1) = take (mcqIndex s) (userAnswers s) @ [c]"
      using Cons.prems lt by (simp add: s1 upd)
    ultimately show ?thesis by (simp add: s1)
  qed
qed

text \<open>
  C7. Pressing next on the last question of a quiz stores as score the number of
  indices at which the stored answer equals the question's designated correct option,
  and moves to summarizing. In particular a user who selects the designated correct
  option of every question of a non-empty quiz ends with a score equal to the number of
  questions and a displayed percentage of 100.
\<close>

theorem quiz_score_counts_matches:
  assumes "mcqQuestions s \<noteq> []" and "mcqIndex s = length (mcqQuestions s) - 1"
  shows "mcqScore (handleNextQuestion s) =
           int (card {i. i < length (mcqQuestions s)
                         \<and> js_get (userAnswers s) i = Some (correctAnswer (mcqQuestions s ! i))})
         \<and> mcqState (handleNextQuestion s) = McqSummarizing
         \<and> (let s0 = handleSelectSubject apiKey reply subject mcq_initial;
                 sN = answer_all (map correctAnswer (mcqQuestions s0)) s0
             in mcqQuestions s0 \<noteq> [] \<longrightarrow>
                mcqState sN = McqSummarizing \<and> mcqScore sN = int (length (mcqQuestions sN))
                \<and> mcq_percentage (mcqScore sN) (mcqQuestions sN) = Some 100)"
proof -
  have a: "mcqScore (handleNextQuestion s) =
           int (card {i. i < length (mcqQuestions s)
                         \<and> js_get (userAnswers s) i = Some (correctAnswer (mcqQuestions s ! i))})
         \<and> mcqState (handleNextQuestion s) = McqSummarizing"
  proof -
    have "\<not> int (mcqIndex s) < int (length (mcqQuestions s)) - 1"
      using assms by (cases "mcqQuestions s") simp_all
    then show ?thesis by (simp add: handleNextQuestion_def count_correct_card)
  qed
  define s0 where "s0 = handleSelectSubject apiKey reply subject mcq_initial"
  define qs where "qs = mcqQuestions s0"
  have s0: "mcqState s0 = McqInProgress" "length (userAnswers s0) = length qs" "mcqIndex s0 = 0"
    by (simp_all add: s0_def qs_def handleSelectSubject_def mcq_initial_def Let_def)
  have b: "mcqState (answer_all (map correctAnswer qs) s0) = McqSummarizing
      \<and> mcqScore (answer_all (map correctAnswer qs) s0)
          = int (length (mcqQuestions (answer_all (map correctAnswer qs) s0)))
      \<and> mcq_percentage (mcqScore (answer_all (map correctAnswer qs) s0))
          (mcqQuestions (answer_all (map correctAnswer qs) s0)) = Some 100"
    if ne: "qs \<noteq> []"
  proof -
    have "answer_all (map correctAnswer qs) s0 =
       s0\<lparr>userAnswers := map correctAnswer qs, mcqIndex := length qs - 1,
          mcqScore := int (length qs), mcqState := McqSummarizing\<rparr>"
      using answer_all_run[of s0 "map correctAnswer qs"] s0 ne
      by (simp add: qs_def[symmetric] count_correct_all)
    then show ?thesis using ne
      by (simp add: qs_def[symmetric] mcq_percentage_def js_divide_def Math_round_100)
  qed
  show ?thesis using a b unfolding s0_def[symmetric] qs_def[symmetric] Let_def by blast
qed

theorem quiz_score_counts_matches_witness:
  "mcqQuestions stack_quiz \<noteq> [] \<and> mcqIndex stack_quiz = length (mcqQuestions stack_quiz) - 1
   \<and> mcqScore (handleNextQuestion stack_quiz) = 1
   \<and> mcqState (handleNextQuestion stack_quiz) = McqSummarizing
   \<and> (let s0 = handleSelectSubject False Mcq_threw DSA mcq_initial;
           sN = answer_all (map correctAnswer (mcqQuestions s0)) s0
       in mcqQuestions s0 \<noteq> [] \<and> mcqScore sN = int (length (mcqQuestions sN))
          \<and> mcq_percentage (mcqScore sN) (mcqQuestions sN) = Some 100)"
proof -
  have h1: "mcqQuestions stack_quiz \<noteq> []" by (simp add: stack_quiz_def)
  have h2: "mcqIndex stack_quiz = length (mcqQuestions stack_quiz) - 1"
    by (simp add: stack_quiz_def)
  have ne: "mcqQuestions (handleSelectSubject False Mcq_threw DSA mcq_initial) \<noteq> []"
    by (simp add: handleSelectSubject_def generateMcqTest_def sampleMcqs_def Let_def)
  have one: "mcqScore (handleNextQuestion stack_quiz) = 1"
    by (simp add: handleNextQuestion_def stack_quiz_def lifo_question_def js_get_def)
  note t = quiz_score_counts_matches [OF h1 h2, of False Mcq_threw DSA]
  show ?thesis
    unfolding Let_def using t [unfolded Let_def] h1 h2 ne one by blast
qed

text \<open>
  C8. With no questions neither results view divides: the quiz view and the interview
  view both display the default percentage 0. Whatever the score and the questions, the
  displayed percentage is a number, never the outcome of a division by zero.
\<close>

theorem percentage_defined_without_questions:
  "mcq_percentage sc [] = Some 0 \<and> interview_percentage [] = Some 0
   \<and> mcq_percentage sc qs \<noteq> None \<and> interview_percentage rs \<noteq> None"
  by (simp add: mcq_percentage_def interview_percentage_def js_divide_def Let_def)

theorem percentage_defined_without_questions_witness:
  "mcq_percentage 3 [] = Some 0 \<and> interview_percentage [] = Some 0
   \<and> mcq_percentage 3 (mcqQuestions stack_quiz) \<noteq> None \<and> interview_percentage [] \<noteq> None"
  using percentage_defined_without_questions [of 3 "mcqQuestions stack_quiz" "[]"] by simp

lemma keyed_object_keys:
  "has_mcq_keys v = Inr True \<longleftrightarrow> keyed_object v"
  by (cases v) (auto simp: keyed_object_def)

lemma every_item_keyed:
  "every_item items = Inr True \<longleftrightarrow> list_all keyed_object items"
proof (induction items)
  case Nil
  then show ?case by simp
next
  case (Cons v rest)
  show ?case
  proof (cases "has_mcq_keys v")
    case (Inl e)
    then have "\<not> keyed_object v" using keyed_object_keys[of v] by simp
    with Inl show ?thesis by simp
  next
    case (Inr ok)
    then show ?thesis using Cons.IH keyed_object_keys[of v] by (cases ok) simp_all
  qed
qed

lemma try_block_outcome:
  "generateMcqTest_try (Json_parsed (J_array items))
     = (if list_all keyed_object items then Inr items
        else case every_item items of Inl e \<Rightarrow> Inl e | Inr ok \<Rightarrow> Inl Format_error)"
proof (cases "every_item items")
  case (Inl e)
  then have "\<not> list_all keyed_object items" using every_item_keyed[of items] by simp
  with Inl show ?thesis by (simp add: generateMcqTest_try_def)
next
  case (Inr ok)
  then show ?thesis using every_item_keyed[of items]
    by (cases ok) (simp_all add: generateMcqTest_try_def)
qed

lemma try_block_not_array:
  "\<forall>items. v \<noteq> J_array items \<Longrightarrow> generateMcqTest_try (Json_parsed v) = Inl Format_error"
  by (cases v) (simp_all add: generateMcqTest_try_def)

lemma item_json_keyed: "keyed_object (item_json x) \<longleftrightarrow> item_ok x"
  by (cases x) (simp_all add: keyed_object_def mcq_json_def)

lemma item_json_accepted:
  "list_all item_ok items \<Longrightarrow> map item_json items = map mcq_json (items_mcqs items)"
  by (induction items rule: items_mcqs.induct) simp_all

lemma generator_on_typed_reply:
  "generateMcqTest_json apiKey (reply_json reply) subject
     = map mcq_json (generateMcqTest apiKey reply subject)"
proof (cases reply)
  case Mcq_threw
  then show ?thesis
    by (simp add: generateMcqTest_json_def generateMcqTest_def generateMcqTest_try_def getAi_def)
next
  case (Mcq_array items)
  have k: "list_all keyed_object (map item_json items) \<longleftrightarrow> list_all item_ok items"
    by (simp add: list_all_iff item_json_keyed)
  show ?thesis
  proof (cases "list_all item_ok items")
    case True
    then show ?thesis using k item_json_accepted[OF True]
      by (simp add: Mcq_array generateMcqTest_json_def generateMcqTest_def try_block_outcome
            getAi_def)
  next
    case False
    then show ?thesis using k
      by (simp add: Mcq_array generateMcqTest_json_def generateMcqTest_def try_block_outcome
            getAi_def split: sum.splits)
  qed
next
  case Mcq_other
  then show ?thesis
    by (simp add: generateMcqTest_json_def generateMcqTest_def generateMcqTest_try_def getAi_def)
qed

lemma accepted_items:
  "list_all item_ok items \<Longrightarrow> Item_missing_key \<notin> set items \<and> Item_not_object \<notin> set items"
  by (induction items) auto

text \<open>
  C9, in the form that holds. With the API key configured, whatever the \<^verbatim>\<open>try\<close> block of
  the quiz generator throws, the generator resolves with the list of the one error
  item, whose options are empty and whose correct answer is the empty string. The block
  throws when the remote call fails or its reply is not JSON, when the parsed value is
  not an array, and when some item of the array is not an object with the keys
  \<^verbatim>\<open>question\<close>, \<^verbatim>\<open>options\<close> and \<^verbatim>\<open>correctAnswer\<close>. An array whose items all are objects
  with the three keys is returned as it is, whatever is stored under the keys. On such
  arrays with values of the declared types the generator is the typed one the page is
  modelled with. \<open>handleSelectSubject\<close> has no failure branch: whatever the generator
  resolved with becomes the question list, the ledger gets one empty slot per item, and
  the page is in progress; after a failure the error item is the only question.
\<close>

theorem quiz_start_without_failure_branch:
  "(apiKey \<longrightarrow>
      (\<forall>e. generateMcqTest_try jr = Inl e \<longrightarrow>
            generateMcqTest_json apiKey jr subject = [mcq_json (mcq_error_item subject)])
      \<and> generateMcqTest_json apiKey Json_threw subject = [mcq_json (mcq_error_item subject)]
      \<and> (\<forall>v. (\<forall>items. v \<noteq> J_array items) \<longrightarrow>
              generateMcqTest_json apiKey (Json_parsed v) subject
                = [mcq_json (mcq_error_item subject)])
      \<and> (\<forall>items. \<not> list_all keyed_object items \<longrightarrow>
              generateMcqTest_json apiKey (Json_parsed (J_array items)) subject
                = [mcq_json (mcq_error_item subject)])
      \<and> (\<forall>items. list_all keyed_object items \<longrightarrow>
              generateMcqTest_json apiKey (Json_parsed (J_array items)) subject = items))
   \<and> mcq_json (mcq_error_item subject)
        = J_object [(''question'', J_string (''An error occurred while fetching questions for ''
                                              @ subject_text subject @ ''. Please try again.'')),
                    (''options'', J_array []), (''correctAnswer'', J_string [])]
   \<and> generateMcqTest_json apiKey (reply_json reply) subject
        = map mcq_json (generateMcqTest apiKey reply subject)
   \<and> mcqState (handleSelectSubject apiKey reply subject s) = McqInProgress
   \<and> mcqQuestions (handleSelectSubject apiKey reply subject s) = generateMcqTest apiKey reply subject
   \<and> userAnswers (handleSelectSubject apiKey reply subject s)
        = replicate (length (generateMcqTest apiKey reply subject)) []
   \<and> (apiKey \<and> (reply = Mcq_threw \<or> reply = Mcq_other
                 \<or> (\<exists>items. reply = Mcq_array items
                       \<and> (Item_missing_key \<in> set items \<or> Item_not_object \<in> set items))) \<longrightarrow>
        mcqQuestions (handleSelectSubject apiKey reply subject s) = [mcq_error_item subject]
        \<and> options (mcq_error_item subject) = [] \<and> correctAnswer (mcq_error_item subject) = []
        \<and> userAnswers (handleSelectSubject apiKey reply subject s) = [[]])"
proof -
  have caught: "generateMcqTest_json apiKey jr subject = [mcq_json (mcq_error_item subject)]"
    if "apiKey" and "generateMcqTest_try jr = Inl e" for e
    using that by (simp add: generateMcqTest_json_def getAi_def)
  have threw: "generateMcqTest_json apiKey Json_threw subject = [mcq_json (mcq_error_item subject)]"
    if "apiKey"
    using that by (simp add: generateMcqTest_json_def getAi_def generateMcqTest_try_def)
  have other: "generateMcqTest_json apiKey (Json_parsed v) subject
                = [mcq_json (mcq_error_item subject)]"
    if "apiKey" and "\<forall>items. v \<noteq> J_array items" for v
    using that try_block_not_array[of v] by (simp add: generateMcqTest_json_def getAi_def)
  have unkeyed: "generateMcqTest_json apiKey (Json_parsed (J_array items)) subject
                = [mcq_json (mcq_error_item subject)]"
    if "apiKey" and "\<not> list_all keyed_object items" for items
    using that
    by (simp add: generateMcqTest_json_def getAi_def try_block_outcome split: sum.splits)
  have keyed: "generateMcqTest_json apiKey (Json_parsed (J_array items)) subject = items"
    if "apiKey" and "list_all keyed_object items" for items
    using that by (simp add: generateMcqTest_json_def getAi_def try_block_outcome)
  have item: "mcq_json (mcq_error_item subject)
        = J_object [(''question'', J_string (''An error occurred while fetching questions for ''
                                              @ subject_text subject @ ''. Please try again.'')),
                    (''options'', J_array []), (''correctAnswer'', J_string [])]"
    by (simp add: mcq_json_def mcq_error_item_def)
  have page: "mcqState (handleSelectSubject apiKey reply subject s) = McqInProgress"
    "mcqQuestions (handleSelectSubject apiKey reply subject s) = generateMcqTest apiKey reply subject"
    "userAnswers (handleSelectSubject apiKey reply subject s)
        = replicate (length (generateMcqTest apiKey reply subject)) []"
    by (simp_all add: handleSelectSubject_def Let_def)
  have failed: "generateMcqTest apiKey reply subject = [mcq_error_item subject]"
    if "apiKey" and "reply = Mcq_threw \<or> reply = Mcq_other
                 \<or> (\<exists>items. reply = Mcq_array items
                       \<and> (Item_missing_key \<in> set items \<or> Item_not_object \<in> set items))"
  proof -
    have "\<not> list_all item_ok items"
      if "Item_missing_key \<in> set items \<or> Item_not_object \<in> set items" for items
      using that accepted_items[of items] by blast
    then show ?thesis using that
      by (auto simp: generateMcqTest_def getAi_def)
  qed
  have shape: "options (mcq_error_item subject) = []" "correctAnswer (mcq_error_item subject) = []"
    by (simp_all add: mcq_error_item_def)
  have gateway: "apiKey \<longrightarrow>
      (\<forall>e. generateMcqTest_try jr = Inl e \<longrightarrow>
            generateMcqTest_json apiKey jr subject = [mcq_json (mcq_error_item subject)])
      \<and> generateMcqTest_json apiKey Json_threw subject = [mcq_json (mcq_error_item subject)]
      \<and> (\<forall>v. (\<forall>items. v \<noteq> J_array items) \<longrightarrow>
              generateMcqTest_json apiKey (Json_parsed v) subject
                = [mcq_json (mcq_error_item subject)])
      \<and> (\<forall>items. \<not> list_all keyed_object items \<longrightarrow>
              generateMcqTest_json apiKey (Json_parsed (J_array items)) subject
                = [mcq_json (mcq_error_item subject)])
      \<and> (\<forall>items. list_all keyed_object items \<longrightarrow>
              generateMcqTest_json apiKey (Json_parsed (J_array items)) subject = items)"
    using caught threw other unkeyed keyed by blast
  have after_failure: "apiKey \<and> (reply = Mcq_threw \<or> reply = Mcq_other
                 \<or> (\<exists>items. reply = Mcq_array items
                       \<and> (Item_missing_key \<in> set items \<or> Item_not_object \<in> set items))) \<longrightarrow>
        mcqQuestions (handleSelectSubject apiKey reply subject s) = [mcq_error_item subject]
        \<and> options (mcq_error_item subject) = [] \<and> correctAnswer (mcq_error_item subject) = []
        \<and> userAnswers (handleSelectSubject apiKey reply subject s) = [[]]"
  proof (intro impI)
    assume "apiKey \<and> (reply = Mcq_threw \<or> reply = Mcq_other
                 \<or> (\<exists>items. reply = Mcq_array items
                       \<and> (Item_missing_key \<in> set items \<or> Item_not_object \<in> set items)))"
    then have g: "generateMcqTest apiKey reply subject = [mcq_error_item subject]"
      using failed by blast
    show "mcqQuestions (handleSelectSubject apiKey reply subject s) = [mcq_error_item subject]
        \<and> options (mcq_error_item subject) = [] \<and> correctAnswer (mcq_error_item subject) = []
        \<and> userAnswers (handleSelectSubject apiKey reply subject s) = [[]]"
      using shape by (simp add: page g)
  qed
  show ?thesis
    using gateway item generator_on_typed_reply[of apiKey reply subject] page after_failure
    by blast
qed

theorem quiz_start_without_failure_branch_witness:
  "generateMcqTest_json True Json_threw OS = [mcq_json (mcq_error_item OS)]
   \<and> generateMcqTest_json True (Json_parsed (J_number 7)) OS = [mcq_json (mcq_error_item OS)]
   \<and> \<not> list_all keyed_object [question_only_item]
   \<and> generateMcqTest_json True (Json_parsed (J_array [question_only_item])) OS
        = [mcq_json (mcq_error_item OS)]
   \<and> generateMcqTest_try (Json_parsed (J_array [J_bool True])) = Inl TypeError
   \<and> generateMcqTest_json True (Json_parsed (J_array [J_bool True])) OS
        = [mcq_json (mcq_error_item OS)]
   \<and> list_all keyed_object [ill_typed_item]
   \<and> generateMcqTest_json True (Json_parsed (J_array [ill_typed_item])) OS = [ill_typed_item]
   \<and> mcqState (handleSelectSubject True (Mcq_array [Item_missing_key]) OS mcq_initial)
        = McqInProgress
   \<and> mcqQuestions (handleSelectSubject True (Mcq_array [Item_missing_key]) OS mcq_initial)
        = [mcq_error_item OS]
   \<and> userAnswers (handleSelectSubject True (Mcq_array [Item_missing_key]) OS mcq_initial) = [[]]"
proof -
  have k1: "\<not> list_all keyed_object [question_only_item]" by code_simp
  have k2: "list_all keyed_object [ill_typed_item]" by code_simp
  have k3: "\<forall>items. J_number 7 \<noteq> J_array items" by simp
  have k4: "True \<and> (Mcq_array [Item_missing_key] = Mcq_threw
                    \<or> Mcq_array [Item_missing_key] = Mcq_other
                    \<or> (\<exists>items. Mcq_array [Item_missing_key] = Mcq_array items
                          \<and> (Item_missing_key \<in> set items \<or> Item_not_object \<in> set items)))"
    by simp
  have k5: "generateMcqTest_try (Json_parsed (J_array [J_bool True])) = Inl TypeError"
    by code_simp
  note a = quiz_start_without_failure_branch
      [where apiKey = True and jr = Json_threw and subject = OS, THEN conjunct1]
  note b = quiz_start_without_failure_branch
      [where apiKey = True and jr = "Json_parsed (J_array [J_bool True])" and subject = OS,
       THEN conjunct1]
  have e0: "generateMcqTest_json True (Json_parsed (J_array [J_bool True])) OS
        = [mcq_json (mcq_error_item OS)]"
    using b k5 by blast
  note d = quiz_start_without_failure_branch
      [where apiKey = True and reply = "Mcq_array [Item_missing_key]" and subject = OS
         and s = mcq_initial]
  have e1: "generateMcqTest_json True Json_threw OS = [mcq_json (mcq_error_item OS)]"
    using a by blast
  have e2: "generateMcqTest_json True (Json_parsed (J_number 7)) OS = [mcq_json (mcq_error_item OS)]"
    using a k3 by blast
  have e3: "generateMcqTest_json True (Json_parsed (J_array [question_only_item])) OS
        = [mcq_json (mcq_error_item OS)]"
    using a k1 by blast
  have e4: "generateMcqTest_json True (Json_parsed (J_array [ill_typed_item])) OS = [ill_typed_item]"
    using a k2 by blast
  have e5: "mcqState (handleSelectSubject True (Mcq_array [Item_missing_key]) OS mcq_initial)
        = McqInProgress
   \<and> mcqQuestions (handleSelectSubject True (Mcq_array [Item_missing_key]) OS mcq_initial)
        = [mcq_error_item OS]
   \<and> userAnswers (handleSelectSubject True (Mcq_array [Item_missing_key]) OS mcq_initial) = [[]]"
    using d k4 by blast
  show ?thesis using k1 k2 k5 e0 e1 e2 e3 e4 e5 by blast
qed

text \<open>
  C9, on any malformed response: not so. A reply whose one item has the three keys with
  a number, a string and \<^verbatim>\<open>null\<close> under them passes the check and is what the
  generator resolves with; it is not the error item, and no quiz question has its
  shape. An empty array passes as well, and the generator resolves with no item at all.
\<close>

theorem quiz_generator_returns_ill_typed_reply:
  "let item = J_object [(''question'', J_number 1), (''options'', J_string ''abc''),
                        (''correctAnswer'', J_null)]
   in generateMcqTest_json True (Json_parsed (J_array [item])) DSA = [item]
      \<and> [item] \<noteq> [mcq_json (mcq_error_item DSA)]
      \<and> (\<forall>m. item \<noteq> mcq_json m)
      \<and> generateMcqTest_json True (Json_parsed (J_array [])) DSA = []"
  by (simp add: generateMcqTest_json_def generateMcqTest_try_def getAi_def mcq_json_def)

lemma mcq_inv_initial: "mcq_inv mcq_initial"
  by (simp add: mcq_inv_def mcq_initial_def)

lemma mcq_inv_step: "mcq_inv s \<Longrightarrow> mcq_inv (mcq_step apiKey e s)"
proof (cases e)
  case (Click_subject subject reply)
  assume "mcq_inv s"
  then show ?thesis
    by (auto simp: Click_subject mcq_inv_def handleSelectSubject_def Let_def)
next
  case (Click_option k)
  assume "mcq_inv s"
  then show ?thesis
    by (auto simp: Click_option mcq_inv_def handleSelectAnswer_def js_set_def nth_list_update)
next
  case Click_next
  assume inv: "mcq_inv s"
  show ?thesis
  proof (cases "mcqState s = McqInProgress \<and> mcqIndex s < length (mcqQuestions s)
                \<and> \<not> next_disabled s")
    case False
    with inv show ?thesis by (auto simp: Click_next)
  next
    case True
    then have cur: "userAnswers s ! mcqIndex s \<noteq> []"
      using inv by (auto simp: next_disabled_def js_get_def mcq_inv_def split: if_splits)
    have below: "\<And>j. j < Suc (mcqIndex s) \<Longrightarrow> userAnswers s ! j \<noteq> []"
      using inv cur by (auto simp: mcq_inv_def less_Suc_eq)
    show ?thesis
    proof (cases "int (mcqIndex s) < int (length (mcqQuestions s)) - 1")
      case adv: True
      with True inv below show ?thesis
        by (auto simp: Click_next mcq_inv_def handleNextQuestion_def)
    next
      case fin: False
      with True have "Suc (mcqIndex s) = length (mcqQuestions s)" by auto
      with True inv below fin show ?thesis
        by (auto simp: Click_next mcq_inv_def handleNextQuestion_def)
    qed
  qed
next
  case (Summary_resolves summary)
  assume "mcq_inv s"
  then show ?thesis
    by (auto simp: Summary_resolves mcq_inv_def getSummary_def)
qed

lemma mcq_inv_run: "mcq_inv s \<Longrightarrow> mcq_inv (mcq_run apiKey es s)"
  unfolding mcq_run_def
  by (induction es arbitrary: s) (simp_all add: mcq_inv_step)

text \<open>
  C10. In every state the quiz page reaches, the next/submit button is disabled
  exactly while the stored answer at the current index is missing or empty, and a
  disabled button changes nothing. So whenever pressing next does something, every
  slot from 0 through the current index holds a non-empty answer, and once the score
  has been computed every slot of the ledger does.
\<close>

theorem quiz_next_needs_answers:
  assumes "s = mcq_run apiKey es mcq_initial"
  shows "(next_disabled s \<longrightarrow> mcq_step apiKey Click_next s = s)
       \<and> (next_disabled s \<longleftrightarrow> js_get (userAnswers s) (mcqIndex s) = None
                                 \<or> js_get (userAnswers s) (mcqIndex s) = Some [])
       \<and> (mcq_step apiKey Click_next s \<noteq> s \<longrightarrow>
            (\<forall>j \<le> mcqIndex s. j < length (userAnswers s) \<and> userAnswers s ! j \<noteq> []))
       \<and> (mcqState s = McqSummarizing \<or> mcqState s = McqResults \<longrightarrow>
            length (userAnswers s) = length (mcqQuestions s)
            \<and> (\<forall>j < length (mcqQuestions s). userAnswers s ! j \<noteq> []))"
proof -
  have inv: "mcq_inv s" using assms mcq_inv_run[OF mcq_inv_initial] by simp
  have a: "next_disabled s \<longrightarrow> mcq_step apiKey Click_next s = s" by simp
  have b: "next_disabled s \<longleftrightarrow> js_get (userAnswers s) (mcqIndex s) = None
                                 \<or> js_get (userAnswers s) (mcqIndex s) = Some []"
    by (auto simp: next_disabled_def split: option.splits)
  have c: "\<forall>j \<le> mcqIndex s. j < length (userAnswers s) \<and> userAnswers s ! j \<noteq> []"
    if "mcq_step apiKey Click_next s \<noteq> s"
  proof -
    from that have en: "mcqIndex s < length (mcqQuestions s)" "\<not> next_disabled s"
      by (auto split: if_splits)
    then have "userAnswers s ! mcqIndex s \<noteq> []"
      using inv by (auto simp: next_disabled_def js_get_def mcq_inv_def split: if_splits)
    with inv en show ?thesis by (auto simp: mcq_inv_def le_less)
  qed
  have d: "mcqState s = McqSummarizing \<or> mcqState s = McqResults \<longrightarrow>
            length (userAnswers s) = length (mcqQuestions s)
            \<and> (\<forall>j < length (mcqQuestions s). userAnswers s ! j \<noteq> [])"
    using inv by (auto simp: mcq_inv_def)
  show ?thesis using a b c d by blast
qed

theorem quiz_next_needs_answers_witness:
  "mcq_run True [Click_subject DSA (Mcq_array [Item_ok lifo_question]), Click_option 1] mcq_initial
     = stack_quiz
   \<and> \<not> next_disabled stack_quiz
   \<and> mcq_step True Click_next stack_quiz \<noteq> stack_quiz
   \<and> mcqIndex stack_quiz < length (userAnswers stack_quiz)
   \<and> userAnswers stack_quiz ! mcqIndex stack_quiz \<noteq> []"
proof -
  have r: "stack_quiz =
     mcq_run True [Click_subject DSA (Mcq_array [Item_ok lifo_question]), Click_option 1] mcq_initial"
    by (simp add: mcq_run_def mcq_initial_def handleSelectSubject_def generateMcqTest_def
          getAi_def handleSelectAnswer_def js_set_def stack_quiz_def lifo_question_def Let_def)
  have en: "\<not> next_disabled stack_quiz"
    by (simp add: next_disabled_def js_get_def stack_quiz_def)
  have ch: "mcq_step True Click_next stack_quiz \<noteq> stack_quiz"
  proof
    assume "mcq_step True Click_next stack_quiz = stack_quiz"
    then have "mcqState (mcq_step True Click_next stack_quiz) = mcqState stack_quiz" by simp
    then show False
      by (simp add: next_disabled_def js_get_def handleNextQuestion_def stack_quiz_def)
  qed
  show ?thesis using quiz_next_needs_answers [OF r] r en ch by auto
qed

section \<open>The answer ledger\<close>

lemma js_get_js_set: "i < length xs \<Longrightarrow> j \<noteq> i \<Longrightarrow> js_get (js_set xs i v) j = js_get xs j"
  by (simp add: js_get_def js_set_def)

lemma other_slot_quiz:
  assumes "mcq_inv s" and "mcqState s \<noteq> Select" and "j \<noteq> mcqIndex s"
  shows "js_get (userAnswers (mcq_step apiKey e s)) j = js_get (userAnswers s) j"
proof (cases e)
  case (Click_subject subject reply)
  then show ?thesis using assms by simp
next
  case (Click_option k)
  then show ?thesis using assms
    by (auto simp: mcq_inv_def handleSelectAnswer_def js_get_js_set)
next
  case Click_next
  then show ?thesis by (simp add: handleNextQuestion_def)
next
  case (Summary_resolves summary)
  then show ?thesis by (simp add: getSummary_def)
qed

lemma passed_slot_quiz:
  assumes "mcq_inv s" and "j < mcqIndex s"
  shows "js_get (userAnswers (mcq_step apiKey e s)) j = js_get (userAnswers s) j"
proof -
  have "mcqState s \<noteq> Select" using assms by (auto simp: mcq_inv_def)
  then show ?thesis using assms by (intro other_slot_quiz) simp_all
qed

lemma advance_ledger:
  "allAnswers (pend (handleAdvanceAfterRecording w)) =
     (if isAdvancing (snap w) \<or> isTerminatedRef w then allAnswers (pend w)
      else js_set (allAnswers (pend w)) (currentQuestionIndex (snap w)) (trim (latestTranscript w)))"
  by (simp add: handleAdvanceAfterRecording_def queue_def emit_def Let_def)

lemma advance_other_slot:
  assumes "inv w" and "1 \<le> rank (interviewState (snap w))" and "j \<noteq> currentQuestionIndex (snap w)"
  shows "js_get (allAnswers (pend (handleAdvanceAfterRecording w))) j = js_get (allAnswers (pend w)) j"
proof (cases "isAdvancing (snap w) \<or> isTerminatedRef w")
  case True
  then show ?thesis by (simp add: advance_ledger)
next
  case False
  then have "currentQuestionIndex (snap w) < length (allAnswers (pend w))"
    using inv_in_range[OF assms(1) _ assms(2)] by simp
  with False assms(3) show ?thesis by (simp add: advance_ledger js_get_js_set)
qed

lemma inv_settle: "inv w \<Longrightarrow> inv (settle w) \<and> agree (settle w)"
  unfolding settle_def run_if_def
  using inv_sync[of w] inv_recognition_cleanup inv_countdown_clear inv_question_setup
    inv_recognition_effect
  by simp

lemma inv_index_order: "inv w \<Longrightarrow> currentQuestionIndex (snap w) \<le> currentQuestionIndex (pend w)"
  unfolding inv_def Let_def by simp

lemma settle_ledger: "allAnswers (pend (settle w)) = allAnswers (pend w)"
  by (simp add: settle_pend)

lemma settle_index: "currentQuestionIndex (snap (settle w)) = currentQuestionIndex (pend w)"
  by (simp add: settle_fields)

lemma render_other_slot:
  assumes "inv w" and "j \<noteq> currentQuestionIndex (pend w)"
  shows "js_get (allAnswers (pend (render w))) j = js_get (allAnswers (pend w)) j"
proof -
  let ?v = "settle w"
  have iv: "inv ?v" using inv_settle[OF assms(1)] by simp
  have j: "j \<noteq> currentQuestionIndex (snap ?v)"
    using assms by (simp add: settle_index)
  have c: "js_get (allAnswers (pend (countdown_effect ?v))) j = js_get (allAnswers (pend ?v)) j"
  proof (cases "interviewState (snap ?v) = InProgress")
    case False
    then show ?thesis by (simp add: countdown_effect_def)
  next
    case True
    then have "1 \<le> rank (interviewState (snap ?v))" by simp
    from advance_other_slot[OF iv this j] show ?thesis
      by (simp add: countdown_effect_def queue_def emit_def)
  qed
  have e: "pend (evaluation_effect u) = pend u" for u
    by (simp add: evaluation_effect_def)
  have m: "pend (summary_effect u) = pend u" for u
    by (simp add: summary_effect_def emit_def)
  have "allAnswers (pend (render w)) = allAnswers (pend (countdown_effect ?v))
        \<or> allAnswers (pend (render w)) = allAnswers (pend ?v)"
    by (simp add: render_eq run_if_def e m)
  with c show ?thesis by (auto simp: settle_ledger)
qed

lemma inv_before_interview:
  "inv w \<Longrightarrow> rank (interviewState (snap w)) = 0 \<Longrightarrow> currentQuestionIndex (snap w) = 0"
  unfolding inv_def Let_def by simp

lemma step_other_slot:
  assumes "inv w" and "1 \<le> rank (interviewState (snap w))"
    and "j \<noteq> currentQuestionIndex (snap (step apiKey e w))"
  shows "js_get (allAnswers (pend (step apiKey e w))) j = js_get (allAnswers (pend w)) j"
proof -
  have nu: "interviewState (snap w) \<noteq> Upload" using assms(2) by auto
  have ns: "\<not> startInFlight w" using assms(1,2) by (auto simp: inv_def Let_def)
  show ?thesis
  proof (cases e)
    case Face_absent
    then show ?thesis by (simp add: handleFaceOutOfFrame_def queue_def emit_def)
  next
    case Warning_timeout
    then show ?thesis by simp
  next
    case (File_change chosen)
    then show ?thesis using nu by simp
  next
    case Start_click
    then show ?thesis using nu by simp
  next
    case (Questions_arrive fileRead reply)
    then show ?thesis using ns by simp
  next
    case Timer_fire
    then show ?thesis by (simp add: queue_def)
  next
    case (Rec_result ev)
    then show ?thesis by (simp add: onresult_def queue_def Let_def)
  next
    case (Rec_error code)
    let ?w = "queue (\<lambda>p. p\<lparr>recognitionError := Some (error_message code)\<rparr>) w"
    show ?thesis
    proof (cases "handlers w \<and> recStarted w")
      case False
      then show ?thesis by (auto simp: Rec_error)
    next
      case True
      have "inv ?w" using assms(1) by (rule inv_recognition_error)
      moreover have "1 \<le> rank (interviewState (snap ?w))"
        using assms(2) by (simp add: queue_def)
      moreover have "j \<noteq> currentQuestionIndex (snap ?w)"
        using assms(3) True by (simp add: Rec_error onerror_def queue_def)
      ultimately have "js_get (allAnswers (pend (handleAdvanceAfterRecording ?w))) j
                       = js_get (allAnswers (pend ?w)) j"
        by (rule advance_other_slot)
      then show ?thesis using True by (simp add: Rec_error onerror_def queue_def)
    qed
  next
    case (Scores_arrive replies)
    then show ?thesis
      by (cases "evaluationsInFlight w") (auto simp: scores_arrive_def queue_def)
  next
    case (Summary_arrives reply)
    then show ?thesis by (simp add: summary_arrives_def queue_def)
  next
    case Render
    then show ?thesis using render_other_slot[OF assms(1)] assms(3) by (simp add: snap_render)
  qed
qed

lemma rendered_index_grows:
  assumes "inv w" and "1 \<le> rank (interviewState (snap w))"
  shows "currentQuestionIndex (snap w) \<le> currentQuestionIndex (snap (step apiKey e w))"
proof -
  have nu: "interviewState (snap w) \<noteq> Upload" using assms(2) by auto
  show ?thesis
  proof (cases e)
    case Face_absent
    then show ?thesis by (simp add: handleFaceOutOfFrame_def queue_def emit_def)
  next
    case Warning_timeout
    then show ?thesis by simp
  next
    case (File_change chosen)
    then show ?thesis using nu by simp
  next
    case Start_click
    then show ?thesis using nu by simp
  next
    case (Questions_arrive fileRead reply)
    then show ?thesis
      by (cases fileRead)
         (simp_all add: handleStartInterview_resume_def queue_def Let_def)
  next
    case Timer_fire
    then show ?thesis by (simp add: queue_def)
  next
    case (Rec_result ev)
    then show ?thesis by (simp add: onresult_def queue_def Let_def)
  next
    case (Rec_error code)
    then show ?thesis by (simp add: onerror_def queue_def)
  next
    case (Scores_arrive replies)
    then show ?thesis
      by (cases "evaluationsInFlight w") (auto simp: scores_arrive_def queue_def)
  next
    case (Summary_arrives reply)
    then show ?thesis by (simp add: summary_arrives_def queue_def)
  next
    case Render
    then show ?thesis using inv_index_order[OF assms(1)] by (simp add: snap_render)
  qed
qed

lemma step_passed_slot:
  assumes "inv w" and "j < currentQuestionIndex (snap w)"
  shows "js_get (allAnswers (pend (step apiKey e w))) j = js_get (allAnswers (pend w)) j"
proof -
  have r: "1 \<le> rank (interviewState (snap w))"
    using inv_before_interview[OF assms(1)] assms(2) by (cases "interviewState (snap w)") auto
  have "j \<noteq> currentQuestionIndex (snap (step apiKey e w))"
    using rendered_index_grows[OF assms(1) r, of apiKey e] assms(2) by simp
  with assms(1) r show ?thesis by (rule step_other_slot)
qed

lemma inv_lengths:
  "inv w \<Longrightarrow> length (allAnswers (pend w)) = length (questions (pend w))
           \<and> length (allAnswers (snap w)) = length (questions (snap w))"
  unfolding inv_def Let_def by simp

lemma ledger_writes_append [simp]:
  "ledger_writes (xs @ ys) = ledger_writes xs @ ledger_writes ys"
  by (induction xs rule: ledger_writes.induct) auto

lemma ledger_writes_score_calls [simp]: "ledger_writes (score_calls qs as) = []"
proof -
  have "ledger_writes (map (\<lambda>(i, q). Score_call q (committed_answer as i)) xs) = []" for xs
    by (induction xs) auto
  then show ?thesis by (simp add: score_calls_def)
qed

lemma inv_locked_after_interview:
  "inv w \<Longrightarrow> \<not> isAdvancing (pend w) \<Longrightarrow> rank (interviewState (pend w)) \<le> 1"
  unfolding inv_def Let_def by (cases "interviewState (pend w)"; simp)

lemma inv_unlocked_in_progress:
  "inv w \<Longrightarrow> \<not> isAdvancing (snap w) \<Longrightarrow> 1 \<le> rank (interviewState (snap w)) \<Longrightarrow>
   currentQuestionIndex (snap w) < length (questions (snap w))
   \<and> questions (pend w) = questions (snap w)"
  unfolding inv_def Let_def by (cases "interviewState (snap w)"; simp)

lemma once_advance:
  assumes "inv w" and "written_once w" and "1 \<le> rank (interviewState (snap w))"
    and "isAdvancing (pend w) \<longrightarrow> isAdvancing (snap w)"
  shows "written_once (handleAdvanceAfterRecording w)"
proof (cases "isAdvancing (snap w) \<or> isTerminatedRef w")
  case True
  with assms(2) show ?thesis by (simp add: advance_locked)
next
  case False
  then have u: "\<not> isAdvancing (snap w)" "\<not> isTerminatedRef w" by auto
  have p: "\<not> isAdvancing (pend w)" using assms(4) u by blast
  have r: "rank (interviewState (pend w)) \<le> 1"
    using inv_locked_after_interview[OF assms(1) p] .
  have i: "currentQuestionIndex (snap w) = currentQuestionIndex (pend w)"
    using assms(2) p by (simp add: written_once_def)
  have q: "currentQuestionIndex (snap w) < length (questions (snap w))"
    "questions (pend w) = questions (snap w)"
    using inv_unlocked_in_progress[OF assms(1) u(1) assms(3)] by simp_all
  have wr: "map fst (ledger_writes (trace w)) = [0..<currentQuestionIndex (pend w)]"
    using assms(2) r by (simp add: written_once_def written_def)
  show ?thesis
  proof (cases "int (currentQuestionIndex (snap w)) < int (length (questions (snap w))) - 1")
    case True
    then show ?thesis
      using r wr i unfolding advance_unlocked[OF u] written_once_def written_def
      by simp
  next
    case False
    with q have "length (questions (snap w)) = Suc (currentQuestionIndex (pend w))"
      using i by auto
    with False show ?thesis
      using r wr i q unfolding advance_unlocked[OF u] written_once_def written_def
      by simp
  qed
qed

lemma once_countdown:
  assumes "inv v" and "written_once v" and "isAdvancing (pend v) \<longrightarrow> isAdvancing (snap v)"
  shows "written_once (countdown_effect v)"
proof (cases "interviewState (snap v) = InProgress")
  case False
  with assms(2) show ?thesis by (simp add: countdown_effect_def)
next
  case True
  then have r: "1 \<le> rank (interviewState (snap v))" by simp
  have arm: "written_once (v\<lparr>countdown := True\<rparr>)"
    using assms(2) by (simp add: written_once_def written_def)
  have start: "written_once (emit Rec_start
             ((queue (\<lambda>p. p\<lparr>interviewPhase := Recording, timer := 30\<rparr>) v)\<lparr>recStarted := True\<rparr>))"
    using assms(2) by (simp add: written_once_def written_def queue_def emit_def)
  show ?thesis
    using assms(2) arm start once_advance[OF assms(1,2) r assms(3)]
    by (simp add: countdown_effect_def)
qed

lemma settle_writes: "ledger_writes (trace (settle w)) = ledger_writes (trace w)"
proof -
  have c: "ledger_writes (trace (recognition_cleanup v)) = ledger_writes (trace v)" for v
    by (simp add: recognition_cleanup_def emit_def)
  show ?thesis
    unfolding settle_def
    by (simp add: run_if_keeps[where F = "\<lambda>v. ledger_writes (trace v)"] c)
qed

lemma settle_written: "written (settle w) = written w"
  by (simp add: written_def settle_pend)

lemma settle_lock: "isAdvancing (pend (settle w)) \<longrightarrow> isAdvancing (snap (settle w))"
  by (simp add: settle_pend settle_fields)

lemma once_settle: "written_once w \<Longrightarrow> written_once (settle w)"
  unfolding written_once_def
  by (simp add: settle_writes settle_written settle_fields) (simp add: settle_pend)

lemma once_render:
  assumes "written_once w" and "inv (settle w)"
  shows "written_once (render w)"
proof -
  let ?v = "settle w"
  have c: "written_once (countdown_effect ?v)"
    using assms(2) once_settle[OF assms(1)] settle_lock by (rule once_countdown)
  have e: "written_once (evaluation_effect u)" if "written_once u" for u
    using that by (simp add: evaluation_effect_def written_once_def written_def)
  have m: "written_once (summary_effect u)" if "written_once u" for u
    using that by (simp add: summary_effect_def written_once_def written_def emit_def)
  show ?thesis
    using c once_settle[OF assms(1)] e m by (simp add: render_eq run_if_def)
qed

lemma inv_settle_sync:
  "inv (w\<lparr>snap := pend w\<rparr>) \<and> agree (w\<lparr>snap := pend w\<rparr>) \<Longrightarrow> inv (settle w)"
  unfolding settle_def run_if_def
  using inv_recognition_cleanup inv_countdown_clear inv_question_setup inv_recognition_effect
  by simp

lemma once_step:
  assumes "inv w" and "written_once w" and "\<not> slips e w"
  shows "written_once (step apiKey e w)"
proof (cases e)
  case Face_absent
  then show ?thesis using assms(2)
    by (simp add: handleFaceOutOfFrame_def queue_def emit_def written_once_def written_def)
next
  case Warning_timeout
  then show ?thesis using assms(2) by (simp add: written_once_def written_def)
next
  case (File_change chosen)
  have "written_once (handleFileChange chosen w)"
    using assms(2)
    by (cases chosen) (simp_all add: handleFileChange_def queue_def written_once_def written_def)
  moreover have "inv (settle (handleFileChange chosen w))"
    using inv_settle[OF inv_file[OF assms(1)]] by simp
  ultimately show ?thesis using assms(2) by (simp add: File_change once_render)
next
  case Start_click
  show ?thesis
  proof (cases "interviewState (snap w) = Upload")
    case False
    then show ?thesis using assms(2) by (simp add: Start_click)
  next
    case True
    then have p: "interviewState (pend w) = Upload" using assms(1) by (simp add: inv_def Let_def)
    have "written_once (handleStartInterview_begin w)"
      using assms(2) p
      by (simp add: handleStartInterview_begin_def queue_def written_once_def written_def)
    moreover have "inv (settle (handleStartInterview_begin w))"
      using inv_begin[OF assms(1) True] by (rule inv_settle_sync)
    ultimately show ?thesis using assms(2) by (simp add: Start_click once_render)
  qed
next
  case (Questions_arrive fileRead reply)
  show ?thesis
  proof (cases "startInFlight w")
    case False
    then show ?thesis using assms(2) by (simp add: Questions_arrive)
  next
    case True
    then have g: "interviewState (pend w) = Generating"
      using assms(1) by (auto simp: inv_def Let_def)
    show ?thesis using assms(2) g True
      by (cases fileRead)
         (simp_all add: Questions_arrive handleStartInterview_resume_def queue_def Let_def
            written_once_def written_def)
  qed
next
  case Timer_fire
  then show ?thesis using assms(2) by (simp add: queue_def written_once_def written_def)
next
  case (Rec_result ev)
  then show ?thesis using assms(2)
    by (simp add: onresult_def queue_def Let_def written_once_def written_def)
next
  case (Rec_error code)
  let ?w = "queue (\<lambda>p. p\<lparr>recognitionError := Some (error_message code)\<rparr>) w"
  show ?thesis
  proof (cases "handlers w \<and> recStarted w")
    case False
    then show ?thesis using assms(2) by (auto simp: Rec_error)
  next
    case True
    have a: "inv ?w" using assms(1) by (rule inv_recognition_error)
    have b: "written_once ?w" using assms(2) by (simp add: written_once_def written_def queue_def)
    have c: "1 \<le> rank (interviewState (snap ?w))"
      using inv_started[OF assms(1)] True by (simp add: queue_def)
    have d: "isAdvancing (pend ?w) \<longrightarrow> isAdvancing (snap ?w)"
      using assms(3) by (auto simp: Rec_error queue_def)
    show ?thesis using once_advance[OF a b c d] True by (simp add: Rec_error onerror_def)
  qed
next
  case (Scores_arrive replies)
  show ?thesis
  proof (cases "evaluationsInFlight w")
    case Nil
    then show ?thesis using assms(2) by (simp add: Scores_arrive scores_arrive_def)
  next
    case (Cons b rest)
    obtain qs answers where b: "b = (qs, answers)" by (cases b)
    have "2 \<le> rank (interviewState (pend w))"
      using assms(1) Cons unfolding inv_def Let_def
      by (cases "interviewState (snap w)"; cases "interviewState (pend w)"; simp)
    then show ?thesis using assms(2) Cons b
      by (simp add: Scores_arrive scores_arrive_batch written_once_def written_def)
  qed
next
  case (Summary_arrives reply)
  show ?thesis
  proof (cases "summariesInFlight w = 0")
    case True
    then show ?thesis using assms(2) by (simp add: Summary_arrives summary_arrives_def)
  next
    case False
    have "2 \<le> rank (interviewState (pend w))"
      using assms(1) False unfolding inv_def Let_def
      by (cases "interviewState (snap w)"; cases "interviewState (pend w)"; simp)
    then show ?thesis using assms(2) False
      by (simp add: Summary_arrives summary_arrives_def queue_def written_once_def written_def)
  qed
next
  case Render
  then show ?thesis using once_render[OF assms(2)] inv_settle[OF assms(1)] by simp
qed

lemma once_run:
  "inv w \<Longrightarrow> written_once w \<Longrightarrow> separated apiKey es w \<Longrightarrow> written_once (run apiKey es w)"
  unfolding run_def
  by (induction es arbitrary: w) (simp_all add: once_step inv_step)

lemma once_initial: "written_once initial_world"
  by (simp add: written_once_def written_def initial_world_def initial_page_def)

text \<open>
  C6, in the form that holds. In every state the quiz page and the interview page
  reach, the ledger has exactly one slot per question. In the quiz, once a subject was
  chosen, an event changes no slot but the one of the current question, and so none
  below the current index: a slot is read-only once next has moved the index past it.
  In the interview, once it is in progress, an event changes no slot but the one at the
  question index the page has rendered when the event is done, and none below the index
  rendered before it: a slot below the rendered index is read-only. And as long as no
  transcription error is delivered between an advance and the render of its lock, the
  ledger writes of the interview are one per passed question, in question order: each
  slot is written exactly once.
\<close>

theorem ledger_length_and_passed_slots:
  "(let s = mcq_run apiKey es mcq_initial
    in length (userAnswers s) = length (mcqQuestions s)
       \<and> (\<forall>e. \<forall>j < mcqIndex s.
             js_get (userAnswers (mcq_step apiKey e s)) j = js_get (userAnswers s) j)
       \<and> (mcqState s \<noteq> Select \<longrightarrow>
            (\<forall>e j. j \<noteq> mcqIndex s \<longrightarrow>
               js_get (userAnswers (mcq_step apiKey e s)) j = js_get (userAnswers s) j)))
   \<and> (let w = run apiKey es' initial_world
      in length (allAnswers (pend w)) = length (questions (pend w))
         \<and> length (allAnswers (snap w)) = length (questions (snap w))
         \<and> (\<forall>e. \<forall>j < currentQuestionIndex (snap w).
               js_get (allAnswers (pend (step apiKey e w))) j = js_get (allAnswers (pend w)) j)
         \<and> (interviewState (snap w) \<noteq> Upload \<and> interviewState (snap w) \<noteq> Generating \<longrightarrow>
              (\<forall>e j. j \<noteq> currentQuestionIndex (snap (step apiKey e w)) \<longrightarrow>
                 js_get (allAnswers (pend (step apiKey e w))) j
                   = js_get (allAnswers (pend w)) j))
         \<and> (separated apiKey es' initial_world \<longrightarrow>
              map fst (ledger_writes (trace w)) = [0..<written w]))"
proof -
  define s where "s = mcq_run apiKey es mcq_initial"
  define w where "w = run apiKey es' initial_world"
  have q: "mcq_inv s" unfolding s_def by (rule mcq_inv_run) (rule mcq_inv_initial)
  have i: "inv w" unfolding w_def by (rule inv_reachable)
  have r: "1 \<le> rank (interviewState (snap w))"
    if "interviewState (snap w) \<noteq> Upload \<and> interviewState (snap w) \<noteq> Generating"
    using that by (cases "interviewState (snap w)") simp_all
  have o: "map fst (ledger_writes (trace w)) = [0..<written w]"
    if "separated apiKey es' initial_world"
    using once_run[OF inv_initial once_initial that] by (simp add: w_def written_once_def)
  have quiz: "length (userAnswers s) = length (mcqQuestions s)
       \<and> (\<forall>e. \<forall>j < mcqIndex s.
             js_get (userAnswers (mcq_step apiKey e s)) j = js_get (userAnswers s) j)
       \<and> (mcqState s \<noteq> Select \<longrightarrow>
            (\<forall>e j. j \<noteq> mcqIndex s \<longrightarrow>
               js_get (userAnswers (mcq_step apiKey e s)) j = js_get (userAnswers s) j))"
    using q passed_slot_quiz[OF q] other_slot_quiz[OF q] by (simp add: mcq_inv_def)
  have spoken: "length (allAnswers (pend w)) = length (questions (pend w))
         \<and> length (allAnswers (snap w)) = length (questions (snap w))
         \<and> (\<forall>e. \<forall>j < currentQuestionIndex (snap w).
               js_get (allAnswers (pend (step apiKey e w))) j = js_get (allAnswers (pend w)) j)
         \<and> (interviewState (snap w) \<noteq> Upload \<and> interviewState (snap w) \<noteq> Generating \<longrightarrow>
              (\<forall>e j. j \<noteq> currentQuestionIndex (snap (step apiKey e w)) \<longrightarrow>
                 js_get (allAnswers (pend (step apiKey e w))) j
                   = js_get (allAnswers (pend w)) j))
         \<and> (separated apiKey es' initial_world \<longrightarrow>
              map fst (ledger_writes (trace w)) = [0..<written w])"
    using inv_lengths[OF i] step_passed_slot[OF i] step_other_slot[OF i r] o by blast
  show ?thesis
    unfolding Let_def s_def[symmetric] w_def[symmetric] using quiz spoken by blast
qed

theorem ledger_length_and_passed_slots_witness:
  "0 < mcqIndex second_question_quiz
   \<and> length (userAnswers second_question_quiz) = length (mcqQuestions second_question_quiz)
   \<and> js_get (userAnswers (mcq_step False (Click_option 2) second_question_quiz)) 0
       = js_get (userAnswers second_question_quiz) 0
   \<and> mcqState second_question_quiz = McqInProgress \<and> mcqIndex second_question_quiz = 1
   \<and> js_get (userAnswers (mcq_step False (Click_option 2) second_question_quiz)) 2
       = js_get (userAnswers second_question_quiz) 2
   \<and> 0 < currentQuestionIndex (snap second_question_world)
   \<and> length (allAnswers (pend second_question_world)) = length (questions (pend second_question_world))
   \<and> js_get (allAnswers (pend (step True (Rec_error ''network'') second_question_world))) 0
       = js_get (allAnswers (pend second_question_world)) 0
   \<and> interviewState (snap second_question_world) = InProgress
   \<and> currentQuestionIndex (snap (step True (Rec_error ''network'') second_question_world)) = 1
   \<and> js_get (allAnswers (pend (step True (Rec_error ''network'') second_question_world))) 2
       = js_get (allAnswers (pend second_question_world)) 2
   \<and> separated True three_answers initial_world
   \<and> map fst (ledger_writes (trace answered_world)) = [0, 1, 2]"
proof -
  have h1: "0 < mcqIndex second_question_quiz" by code_simp
  have h2: "0 < currentQuestionIndex (snap second_question_world)" by code_simp
  have h3: "mcqState second_question_quiz = McqInProgress" by code_simp
  have h4: "mcqIndex second_question_quiz = 1" by code_simp
  have h5: "interviewState (snap second_question_world) = InProgress" by code_simp
  have h6: "currentQuestionIndex (snap (step True (Rec_error ''network'') second_question_world)) = 1"
    by code_simp
  have h7: "separated True three_answers initial_world" by code_simp
  have h8: "written answered_world = 3" by code_simp
  have n1: "mcqState second_question_quiz \<noteq> Select" using h3 by simp
  have n2: "2 \<noteq> mcqIndex second_question_quiz" using h4 by simp
  have n3: "interviewState (snap second_question_world) \<noteq> Upload
            \<and> interviewState (snap second_question_world) \<noteq> Generating"
    using h5 by simp
  have n4: "2 \<noteq> currentQuestionIndex (snap (step True (Rec_error ''network'') second_question_world))"
    using h6 by simp
  note t = ledger_length_and_passed_slots [where apiKey = True and es' = "to_last_second three_questions @ [Timer_fire, Render, Render, Render]",
      unfolded Let_def second_question_world_def[symmetric], THEN conjunct2]
  note u = ledger_length_and_passed_slots [where apiKey = False and es = "[Click_subject DSA Mcq_threw, Click_option 0, Click_next]",
      unfolded Let_def second_question_quiz_def[symmetric], THEN conjunct1]
  note v = ledger_length_and_passed_slots [where apiKey = True and es' = three_answers,
      unfolded Let_def answered_world_def[symmetric], THEN conjunct2]
  have q0: "js_get (userAnswers (mcq_step False (Click_option 2) second_question_quiz)) 0
       = js_get (userAnswers second_question_quiz) 0"
    and ql: "length (userAnswers second_question_quiz) = length (mcqQuestions second_question_quiz)"
    using u h1 by blast+
  have q2: "js_get (userAnswers (mcq_step False (Click_option 2) second_question_quiz)) 2
       = js_get (userAnswers second_question_quiz) 2"
    using u n1 n2 by blast
  have s0: "js_get (allAnswers (pend (step True (Rec_error ''network'') second_question_world))) 0
       = js_get (allAnswers (pend second_question_world)) 0"
    and sl: "length (allAnswers (pend second_question_world)) = length (questions (pend second_question_world))"
    using t h2 by blast+
  have s2: "js_get (allAnswers (pend (step True (Rec_error ''network'') second_question_world))) 2
       = js_get (allAnswers (pend second_question_world)) 2"
    using t n3 n4 by blast
  have "map fst (ledger_writes (trace answered_world)) = [0..<written answered_world]"
    using v h7 by blast
  then have o: "map fst (ledger_writes (trace answered_world)) = [0, 1, 2]"
    by (simp add: h8 upt_rec)
  show ?thesis using h1 h2 h3 h4 h5 h6 h7 q0 ql q2 s0 sl s2 o by blast
qed

text \<open>
  C6, a slot written exactly once and read-only thereafter: not so. In the demo quiz,
  on its first question, the user selects the first option and then the second; slot 0
  is written by each selection and holds the second option afterwards, with the index
  still at 0.
\<close>

theorem ledger_slot_written_twice:
  "let s0 = mcq_run False [Click_subject DSA Mcq_threw] mcq_initial;
       s1 = mcq_step False (Click_option 0) s0;
       s2 = mcq_step False (Click_option 1) s1
   in mcqIndex s0 = 0 \<and> mcqIndex s1 = 0 \<and> mcqIndex s2 = 0
      \<and> userAnswers s0 ! 0 = []
      \<and> userAnswers s1 ! 0 = ''The process of hiding the implementation details of an object''
      \<and> userAnswers s2 ! 0 = ''The ability of an object to take on many forms''"
  by code_simp

end
